theory Spec2Isabelle
  imports Complex_Main "HOL-Library.Monad_Syntax"
begin

section \<open>Numbers\<close>

text \<open>
  The program computes with JavaScript numbers. They are modelled as the reals extended by
  the two infinities and NaN, with the arithmetic of IEEE 754 on these values. Rounding,
  overflow and the sign of zero are not modelled: a finite result is the exact real one, and
  a nonzero finite number divided by zero is the infinity of the sign of the numerator.
\<close>

datatype jsnum = Fin real | PInf | NInf | NaN

fun jneg :: "jsnum \<Rightarrow> jsnum" where
  "jneg (Fin a) = Fin (- a)"
| "jneg PInf = NInf"
| "jneg NInf = PInf"
| "jneg NaN = NaN"

fun jadd :: "jsnum \<Rightarrow> jsnum \<Rightarrow> jsnum" where
  "jadd (Fin a) (Fin b) = Fin (a + b)"
| "jadd NaN _ = NaN"
| "jadd _ NaN = NaN"
| "jadd PInf NInf = NaN"
| "jadd NInf PInf = NaN"
| "jadd PInf _ = PInf"
| "jadd _ PInf = PInf"
| "jadd NInf _ = NInf"
| "jadd _ NInf = NInf"

definition jsub :: "jsnum \<Rightarrow> jsnum \<Rightarrow> jsnum" where
  "jsub a b = jadd a (jneg b)"

text \<open>The sign of a factor: positive, negative, or neither (zero and NaN).\<close>

fun jpos :: "jsnum \<Rightarrow> bool" where
  "jpos (Fin a) = (0 < a)"
| "jpos PInf = True"
| "jpos NInf = False"
| "jpos NaN = False"

fun jnegative :: "jsnum \<Rightarrow> bool" where
  "jnegative (Fin a) = (a < 0)"
| "jnegative PInf = False"
| "jnegative NInf = True"
| "jnegative NaN = False"

fun jmul :: "jsnum \<Rightarrow> jsnum \<Rightarrow> jsnum" where
  "jmul (Fin a) (Fin b) = Fin (a * b)"
| "jmul NaN _ = NaN"
| "jmul _ NaN = NaN"
| "jmul a b =
     (if (jpos a \<and> jpos b) \<or> (jnegative a \<and> jnegative b) then PInf
      else if (jpos a \<and> jnegative b) \<or> (jnegative a \<and> jpos b) then NInf
      else NaN)"

fun jdiv :: "jsnum \<Rightarrow> jsnum \<Rightarrow> jsnum" where
  "jdiv (Fin a) (Fin b) =
     (if b = 0 then (if a = 0 then NaN else if 0 < a then PInf else NInf)
      else Fin (a / b))"
| "jdiv NaN _ = NaN"
| "jdiv _ NaN = NaN"
| "jdiv (Fin a) _ = Fin 0"
| "jdiv PInf (Fin b) = (if b < 0 then NInf else PInf)"
| "jdiv NInf (Fin b) = (if b < 0 then PInf else NInf)"
| "jdiv _ _ = NaN"

fun jgt :: "jsnum \<Rightarrow> jsnum \<Rightarrow> bool" where
  "jgt (Fin a) (Fin b) = (b < a)"
| "jgt NaN _ = False"
| "jgt _ NaN = False"
| "jgt PInf PInf = False"
| "jgt PInf _ = True"
| "jgt NInf _ = False"
| "jgt _ NInf = True"
| "jgt _ PInf = False"

definition jlt :: "jsnum \<Rightarrow> jsnum \<Rightarrow> bool" where
  "jlt a b = jgt b a"

fun jabs :: "jsnum \<Rightarrow> jsnum" where
  "jabs (Fin a) = Fin \<bar>a\<bar>"
| "jabs PInf = PInf"
| "jabs NInf = PInf"
| "jabs NaN = NaN"

text \<open>\<open>v || 0\<close> on a number: NaN and zero are falsy.\<close>

definition jor0 :: "jsnum \<Rightarrow> jsnum" where
  "jor0 v = (if v = NaN \<or> v = Fin 0 then Fin 0 else v)"

section \<open>Matrix and the linear solver\<close>

record Matrix =
  rows :: nat
  cols :: nat
  data :: "jsnum list list"

definition newMatrix :: "nat \<Rightarrow> nat \<Rightarrow> Matrix" where
  "newMatrix r c = \<lparr>rows = r, cols = c, data = replicate r (replicate c (Fin 0))\<rparr>"

text \<open>The pivot search of column \<open>i\<close>: the first row at or below \<open>i\<close> of largest magnitude.\<close>

definition pivotRow :: "jsnum list list \<Rightarrow> nat \<Rightarrow> nat \<Rightarrow> nat" where
  "pivotRow M n i =
     foldl (\<lambda>maxRow k. if jgt (jabs (M ! k ! i)) (jabs (M ! maxRow ! i)) then k else maxRow)
       i [i + 1 ..< n]"

definition swapRows :: "jsnum list list \<Rightarrow> nat \<Rightarrow> nat \<Rightarrow> jsnum list list" where
  "swapRows M i maxRow = (M[i := M ! maxRow])[maxRow := M ! i]"

definition elimRow :: "jsnum list list \<Rightarrow> nat \<Rightarrow> nat \<Rightarrow> nat \<Rightarrow> jsnum list list" where
  "elimRow M n i k =
     (let factor = jdiv (M ! k ! i) (M ! i ! i)
      in M[k := foldl (\<lambda>row j. row[j := jsub (row ! j) (jmul factor (M ! i ! j))])
                  (M ! k) [i ..< n + 1]])"

definition elimStep :: "nat \<Rightarrow> jsnum list list \<Rightarrow> nat \<Rightarrow> jsnum list list" where
  "elimStep n M i =
     (let M1 = swapRows M i (pivotRow M n i)
      in if jlt (jabs (M1 ! i ! i)) (Fin (1 / 10 ^ 10)) then M1
         else foldl (\<lambda>M2 k. elimRow M2 n i k) M1 [i + 1 ..< n])"

definition backStep :: "nat \<Rightarrow> jsnum list list \<Rightarrow> jsnum list \<Rightarrow> nat \<Rightarrow> jsnum list" where
  "backStep n M x i =
     (if jlt (jabs (M ! i ! i)) (Fin (1 / 10 ^ 10)) then x
      else let sum = foldl (\<lambda>s j. jadd s (jmul (M ! i ! j) (x ! j))) (Fin 0) [i + 1 ..< n]
           in x[i := jdiv (jsub (M ! i ! n) sum) (M ! i ! i)])"

definition solve :: "Matrix \<Rightarrow> jsnum list \<Rightarrow> jsnum list" where
  "solve A b =
     (let n = rows A;
          M = map (\<lambda>i. data A ! i @ [b ! i]) [0 ..< length (data A)];
          M' = foldl (elimStep n) M [0 ..< n]
      in foldl (backStep n M') (replicate n (Fin 0)) (rev [0 ..< n]))"

section \<open>Components, wires and the circuit\<close>

record Terminal =
  tid :: nat
  tx :: real
  ty :: real

text \<open>
  The property bag of a component. A property that the bag of a type does not hold reads as
  \<open>undefined\<close>, which every use in the solver (\<open>parseFloat\<close>, \<open>*\<close>, \<open>>\<close>) turns into NaN;
  it is NaN here. The values are numbers, as \<open>DefaultProperties\<close> and \<open>updateCompProp\<close>
  store them, so that \<open>parseFloat\<close> returns them as they are. The field \<open>closedSw\<close> is the
  property \<open>closed\<close>.
\<close>

record Properties =
  voltage :: jsnum
  internalResistance :: jsnum
  resistance :: jsnum
  powerRating :: jsnum
  maxLumens :: jsnum
  closedSw :: bool
  forwardVoltage :: jsnum
  breakdownVoltage :: jsnum

text \<open>An entry of \<open>nodeIds\<close>: \<open>null\<close>, or what the index map returned (\<open>None\<close> is \<open>undefined\<close>).\<close>

datatype nodeId = NullId | NodeIdx "int option"

text \<open>The field \<open>powerW\<close> is the state field \<open>power\<close>.\<close>

record State =
  voltageDrop :: jsnum
  current :: jsnum
  powerW :: jsnum
  burnt :: bool
  nodeIds :: "nodeId \<times> nodeId"
  animationOffset :: jsnum

text \<open>The fields \<open>cid\<close>, \<open>ctype\<close>, \<open>posx\<close>, \<open>posy\<close>, \<open>cwidth\<close>, \<open>cheight\<close> are \<open>id\<close>, \<open>type\<close>,
  \<open>x\<close>, \<open>y\<close>, \<open>width\<close>, \<open>height\<close>.\<close>

record Component =
  cid :: string
  ctype :: string
  posx :: real
  posy :: real
  rotation :: nat
  cwidth :: real
  cheight :: real
  terminals :: "Terminal list"
  properties :: Properties
  state :: State

text \<open>A wire refers to its two components; the solver reads only their \<open>id\<close>, which is what
  \<open>startComp\<close> and \<open>endComp\<close> hold here.\<close>

record Wire =
  startComp :: string
  startTermId :: nat
  endComp :: string
  endTermId :: nat

record App =
  components :: "Component list"
  wires :: "Wire list"

definition noProperties :: Properties where
  "noProperties = \<lparr>voltage = NaN, internalResistance = NaN, resistance = NaN, powerRating = NaN,
     maxLumens = NaN, closedSw = False, forwardVoltage = NaN, breakdownVoltage = NaN\<rparr>"

definition DefaultProperties :: "string \<Rightarrow> Properties" where
  "DefaultProperties t =
     (if t = ''battery'' then noProperties\<lparr>voltage := Fin 9, internalResistance := Fin (3 / 2)\<rparr>
      else if t = ''resistor'' then noProperties\<lparr>resistance := Fin 100, powerRating := Fin (1 / 2)\<rparr>
      else if t = ''light'' then
        noProperties\<lparr>resistance := Fin 50, powerRating := Fin 1, maxLumens := Fin 100\<rparr>
      else if t = ''switch'' then noProperties\<lparr>closedSw := False, resistance := Fin (1 / 100)\<rparr>
      else if t = ''fan'' then noProperties\<lparr>resistance := Fin 20, powerRating := Fin 2\<rparr>
      else if t = ''diode'' then
        noProperties\<lparr>forwardVoltage := Fin (7 / 10), breakdownVoltage := Fin 50\<rparr>
      else noProperties)"

definition getTerminalsConfig :: "Terminal list" where
  "getTerminalsConfig = [\<lparr>tid = 0, tx = - 30, ty = 0\<rparr>, \<lparr>tid = 1, tx = 30, ty = 0\<rparr>]"

text \<open>The constructor, with the identifier given (the source draws a random one otherwise).\<close>

definition newComponent :: "string \<Rightarrow> real \<Rightarrow> real \<Rightarrow> string \<Rightarrow> Component" where
  "newComponent t x y i =
     \<lparr>cid = i, ctype = t, posx = x, posy = y, rotation = 0, cwidth = 60, cheight = 60,
      terminals = getTerminalsConfig, properties = DefaultProperties t,
      state = \<lparr>voltageDrop = Fin 0, current = Fin 0, powerW = Fin 0, burnt = False,
               nodeIds = (NullId, NullId), animationOffset = Fin 0\<rparr>\<rparr>"

section \<open>The disjoint sets of terminals\<close>

text \<open>
  The array \<open>parent\<close> is read at set numbers and, when a wire names a terminal that no
  component has, at \<open>undefined\<close> (the map \<open>keyToSetId\<close> returns it, and JavaScript reads and
  writes the property of that name). An element is therefore \<open>Some i\<close> or \<open>None\<close> for
  \<open>undefined\<close>, and the array is a function on elements: an index never written holds
  \<open>undefined\<close>. The length of the array is kept beside it.

  The key of a terminal is the string of the component's id, an underscore and the terminal's
  number; the pair of the two is in one-to-one correspondence with it.

  \<open>find_uf\<close> and \<open>union_uf\<close> are the closures \<open>find\<close> and \<open>union\<close>. The recursion of \<open>find\<close> ends
  when the parents lead to a root; \<open>None\<close> is a call that does not end. The arrays that the
  solver builds are such that it always ends, which is proved below.
\<close>

type_synonym elem = "nat option"
type_synonym parentArr = "elem \<Rightarrow> elem"
type_synonym termKey = "string \<times> nat"

definition getTermKey :: "string \<Rightarrow> nat \<Rightarrow> termKey" where
  "getTermKey i t = (i, t)"

partial_function (option) find_uf :: "parentArr \<Rightarrow> elem \<Rightarrow> (elem \<times> parentArr) option" where
  "find_uf parent i =
     (if parent i = i then Some (i, parent)
      else Option.bind (find_uf parent (parent i)) (\<lambda>(r, parent'). Some (r, parent'(i := r))))"

declare find_uf.simps [code]

definition union_uf :: "parentArr \<Rightarrow> elem \<Rightarrow> elem \<Rightarrow> parentArr option" where
  "union_uf parent i j =
     Option.bind (find_uf parent i) (\<lambda>(rootI, p1).
     Option.bind (find_uf p1 j) (\<lambda>(rootJ, p2).
       Some (if rootI \<noteq> rootJ then p2(rootI := rootJ) else p2)))"

text \<open>\<open>makeSet\<close> for every terminal of every component, in order.\<close>

definition makeSet :: "parentArr \<times> nat \<Rightarrow> (parentArr \<times> nat) \<times> nat" where
  "makeSet pn = (case pn of (parent, len) \<Rightarrow> ((parent(Some len := Some len), Suc len), len))"

definition makeSets ::
  "Component list \<Rightarrow> (parentArr \<times> nat) \<times> (termKey \<Rightarrow> nat option)" where
  "makeSets cs =
     foldl (\<lambda>st c. foldl (\<lambda>(pn, keyToSetId) t.
                             (case makeSet pn of (pn', p) \<Rightarrow>
                                (pn', keyToSetId(getTermKey (cid c) (tid t) \<mapsto> p))))
                      st (terminals c))
       (((\<lambda>_. None), 0), Map.empty) cs"

fun unionWires :: "(termKey \<Rightarrow> nat option) \<Rightarrow> Wire list \<Rightarrow> parentArr \<Rightarrow> parentArr option" where
  "unionWires keyToSetId [] parent = Some parent"
| "unionWires keyToSetId (w # ws) parent =
     Option.bind
       (union_uf parent (keyToSetId (getTermKey (startComp w) (startTermId w)))
                        (keyToSetId (getTermKey (endComp w) (endTermId w))))
       (unionWires keyToSetId ws)"

text \<open>The set \<open>distinctRoots\<close> keeps insertion order: a list without repetition.\<close>

definition setAdd :: "'a list \<Rightarrow> 'a \<Rightarrow> 'a list" where
  "setAdd s v = (if v \<in> set s then s else s @ [v])"

fun collectRoots ::
  "(termKey \<Rightarrow> nat option) \<Rightarrow> termKey list \<Rightarrow> parentArr \<times> elem list \<Rightarrow>
   (parentArr \<times> elem list) option" where
  "collectRoots keyToSetId [] st = Some st"
| "collectRoots keyToSetId (k # ks) (parent, distinctRoots) =
     Option.bind (find_uf parent (keyToSetId k)) (\<lambda>(r, parent').
       collectRoots keyToSetId ks (parent', setAdd distinctRoots r))"

text \<open>The keys of all terminals, in the order the two nested \<open>forEach\<close> visit them.\<close>

definition termKeys :: "Component list \<Rightarrow> termKey list" where
  "termKeys cs = concat (map (\<lambda>c. map (\<lambda>t. getTermKey (cid c) (tid t)) (terminals c)) cs)"

section \<open>Ground and matrix indices\<close>

text \<open>Ground is the first root, or the root of terminal 0 of the first battery.\<close>

definition pickGround ::
  "(termKey \<Rightarrow> nat option) \<Rightarrow> Component list \<Rightarrow> elem list \<Rightarrow> parentArr \<Rightarrow>
   (elem \<times> parentArr) option" where
  "pickGround keyToSetId cs rootsArray parent =
     (case List.find (\<lambda>c. ctype c = ''battery'') cs of
        None \<Rightarrow> Some (rootsArray ! 0, parent)
      | Some battery \<Rightarrow> find_uf parent (keyToSetId (getTermKey (cid battery) 0)))"

definition assignIndices :: "elem \<Rightarrow> elem list \<Rightarrow> (elem \<Rightarrow> int option) \<times> nat" where
  "assignIndices groundRoot rootsArray =
     foldl (\<lambda>(rootToMatrixIdx, matrixSize) r.
              if r = groundRoot then (rootToMatrixIdx(r \<mapsto> - 1), matrixSize)
              else (rootToMatrixIdx(r \<mapsto> int matrixSize), Suc matrixSize))
       (Map.empty, 0) rootsArray"

text \<open>The matrix index of terminal \<open>t\<close> of a component; \<open>None\<close> is \<open>undefined\<close>.\<close>

definition nodeOf ::
  "(termKey \<Rightarrow> nat option) \<Rightarrow> (elem \<Rightarrow> int option) \<Rightarrow> parentArr \<Rightarrow> Component \<Rightarrow> nat \<Rightarrow>
   (int option \<times> parentArr) option" where
  "nodeOf keyToSetId rootToMatrixIdx parent c t =
     Option.bind (find_uf parent (keyToSetId (getTermKey (cid c) t)))
       (\<lambda>(r, parent'). Some (rootToMatrixIdx r, parent'))"

section \<open>Assembly\<close>

definition getCell :: "Matrix \<Rightarrow> nat \<Rightarrow> nat \<Rightarrow> jsnum" where
  "getCell A i j = data A ! i ! j"

definition setCell :: "Matrix \<Rightarrow> nat \<Rightarrow> nat \<Rightarrow> jsnum \<Rightarrow> Matrix" where
  "setCell A i j v = A\<lparr>data := (data A)[i := (data A ! i)[j := v]]\<rparr>"

text \<open>
  A result \<open>None\<close> of the assembly is the TypeError of reading a row at \<open>undefined\<close>; it is
  raised before any component has been written.
\<close>

definition addG :: "int option \<Rightarrow> int option \<Rightarrow> jsnum \<Rightarrow> Matrix \<Rightarrow> Matrix option" where
  "addG nodeIdx1 nodeIdx2 G A =
     (case nodeIdx1 of None \<Rightarrow> None | Some i1 \<Rightarrow>
      (case nodeIdx2 of None \<Rightarrow> None | Some i2 \<Rightarrow>
        Some (let A1 = (if i1 \<noteq> - 1
                        then setCell A (nat i1) (nat i1) (jadd (getCell A (nat i1) (nat i1)) G)
                        else A);
                  A2 = (if i2 \<noteq> - 1
                        then setCell A1 (nat i2) (nat i2) (jadd (getCell A1 (nat i2) (nat i2)) G)
                        else A1)
              in if i1 \<noteq> - 1 \<and> i2 \<noteq> - 1
                 then let A3 = setCell A2 (nat i1) (nat i2) (jsub (getCell A2 (nat i1) (nat i2)) G)
                      in setCell A3 (nat i2) (nat i1) (jsub (getCell A3 (nat i2) (nat i1)) G)
                 else A2)))"

text \<open>
  The non-burnt batteries are kept by their position in \<open>components\<close>, which is what tells
  two component objects apart; \<open>indexOf\<close> is \<open>- 1\<close> for a value that is not in the list.
\<close>

definition voltageSources :: "Component list \<Rightarrow> nat list" where
  "voltageSources cs =
     filter (\<lambda>i. ctype (cs ! i) = ''battery'' \<and> \<not> burnt (state (cs ! i))) [0 ..< length cs]"

fun indexOf :: "nat list \<Rightarrow> nat \<Rightarrow> int" where
  "indexOf [] v = - 1"
| "indexOf (a # as) v =
     (if a = v then 0 else (let r = indexOf as v in if r = - 1 then - 1 else r + 1))"

text \<open>The stamp of the battery at position \<open>pos\<close>.\<close>

definition stampBattery ::
  "nat \<Rightarrow> nat list \<Rightarrow> nat \<Rightarrow> Component \<Rightarrow> int option \<Rightarrow> int option \<Rightarrow> Matrix \<times> jsnum list \<Rightarrow>
   (Matrix \<times> jsnum list) option" where
  "stampBattery matrixSize vs pos c n1 n2 Ab =
     (case Ab of (A, b) \<Rightarrow>
      (case n1 of None \<Rightarrow> None | Some i1 \<Rightarrow>
      (case n2 of None \<Rightarrow> None | Some i2 \<Rightarrow>
        (let srcIdx = nat (int matrixSize + indexOf vs pos);
             A1 = (if i1 \<noteq> - 1 then setCell A srcIdx (nat i1) (Fin (- 1)) else A);
             A2 = (if i2 \<noteq> - 1 then setCell A1 srcIdx (nat i2) (Fin 1) else A1);
             A3 = (if i1 \<noteq> - 1 then setCell A2 (nat i1) srcIdx (Fin (- 1)) else A2);
             A4 = (if i2 \<noteq> - 1 then setCell A3 (nat i2) srcIdx (Fin 1) else A3);
             rInt = jor0 (internalResistance (properties c));
             A5 = setCell A4 srcIdx srcIdx rInt
         in Some (A5, b[srcIdx := voltage (properties c)])))))"

text \<open>The stamp of a non-burnt component whose terminals are at \<open>n1\<close> and \<open>n2\<close>.\<close>

definition stampComponent ::
  "nat \<Rightarrow> nat list \<Rightarrow> nat \<Rightarrow> Component \<Rightarrow> int option \<Rightarrow> int option \<Rightarrow> Matrix \<times> jsnum list \<Rightarrow>
   (Matrix \<times> jsnum list) option" where
  "stampComponent matrixSize vs pos c n1 n2 Ab =
     (case Ab of (A, b) \<Rightarrow>
      if ctype c = ''resistor'' \<or> ctype c = ''light'' \<or> ctype c = ''fan'' then
        (let R = resistance (properties c)
         in if jgt R (Fin 0) then map_option (\<lambda>A'. (A', b)) (addG n1 n2 (jdiv (Fin 1) R) A)
            else Some (A, b))
      else if ctype c = ''switch'' then
        (let R = (if closedSw (properties c) then Fin (1 / 100) else Fin (10 ^ 9))
         in map_option (\<lambda>A'. (A', b)) (addG n1 n2 (jdiv (Fin 1) R) A))
      else if ctype c = ''diode'' then
        (let R = (if jgt (voltageDrop (state c)) (forwardVoltage (properties c))
                  then Fin (1 / 10) else Fin (10 ^ 7))
         in map_option (\<lambda>A'. (A', b)) (addG n1 n2 (jdiv (Fin 1) R) A))
      else if ctype c = ''battery'' then stampBattery matrixSize vs pos c n1 n2 (A, b)
      else Some (A, b))"

text \<open>The assembly loop over the components with their positions.\<close>

fun assemble ::
  "(termKey \<Rightarrow> nat option) \<Rightarrow> (elem \<Rightarrow> int option) \<Rightarrow> nat \<Rightarrow> nat list \<Rightarrow>
   (nat \<times> Component) list \<Rightarrow> parentArr \<times> Matrix \<times> jsnum list \<Rightarrow>
   (parentArr \<times> Matrix \<times> jsnum list) option" where
  "assemble keyToSetId rootToMatrixIdx matrixSize vs [] st = Some st"
| "assemble keyToSetId rootToMatrixIdx matrixSize vs ((pos, c) # pcs) (parent, Ab) =
     (if burnt (state c) then assemble keyToSetId rootToMatrixIdx matrixSize vs pcs (parent, Ab)
      else
        Option.bind (nodeOf keyToSetId rootToMatrixIdx parent c 0) (\<lambda>(n1, p1).
        Option.bind (nodeOf keyToSetId rootToMatrixIdx p1 c 1) (\<lambda>(n2, p2).
        Option.bind (stampComponent matrixSize vs pos c n1 n2 Ab) (\<lambda>Ab'.
          assemble keyToSetId rootToMatrixIdx matrixSize vs pcs (p2, Ab')))))"

definition addLeakage :: "nat \<Rightarrow> Matrix \<Rightarrow> Matrix" where
  "addLeakage matrixSize A =
     foldl (\<lambda>A' i. setCell A' i i (jadd (getCell A' i i) (Fin (1 / 10 ^ 9)))) A [0 ..< matrixSize]"

section \<open>State update\<close>

text \<open>The voltage of a node; at \<open>undefined\<close> the solution vector has no entry, and the
  subtraction that follows makes NaN of it.\<close>

definition getNodeV :: "jsnum list \<Rightarrow> int option \<Rightarrow> jsnum" where
  "getNodeV x rIdx =
     (case rIdx of None \<Rightarrow> NaN | Some i \<Rightarrow> if i = - 1 then Fin 0 else x ! nat i)"

text \<open>
  The new state of a non-burnt component whose terminals are at \<open>n1\<close> and \<open>n2\<close>. The refresh
  of the properties panel that follows a burn writes to the page only and is left out.
\<close>

definition updateComponent ::
  "jsnum list \<Rightarrow> nat \<Rightarrow> nat list \<Rightarrow> nat \<Rightarrow> int option \<Rightarrow> int option \<Rightarrow> Component \<Rightarrow> Component"
  where
  "updateComponent x matrixSize vs pos n1 n2 c =
     (let v1 = getNodeV x n1;
          v2 = getNodeV x n2;
          st1 =
            (if ctype c = ''battery'' then
               (let srcIdx = nat (int matrixSize + indexOf vs pos);
                    iBatt = x ! srcIdx;
                    rInt = internalResistance (properties c);
                    pInt = jmul (jmul iBatt iBatt) rInt
                in (state c)\<lparr>voltageDrop := jsub v2 v1, current := iBatt, powerW := pInt\<rparr>)
             else
               (let V = jsub v2 v1;
                    R0 = resistance (properties c);
                    R1 = (if ctype c = ''switch''
                          then (if closedSw (properties c) then Fin (1 / 100) else Fin (10 ^ 9))
                          else R0);
                    R = (if ctype c = ''diode''
                         then (if jgt (voltageDrop (state c)) (forwardVoltage (properties c))
                               then Fin (1 / 10) else Fin (10 ^ 7))
                         else R1);
                    I = jdiv V R;
                    st0 = (state c)\<lparr>current := I, voltageDrop := V, powerW := jmul (jmul I I) R\<rparr>
                in if ctype c \<in> set [''resistor'', ''light'', ''fan''] then
                     (if jgt (powerW st0) (jmul (powerRating (properties c)) (Fin (3 / 2)))
                      then st0\<lparr>burnt := True\<rparr> else st0)
                   else st0))
      in c\<lparr>state := st1\<lparr>nodeIds := (NodeIdx n1, NodeIdx n2)\<rparr>\<rparr>)"

fun updateStates ::
  "(termKey \<Rightarrow> nat option) \<Rightarrow> (elem \<Rightarrow> int option) \<Rightarrow> jsnum list \<Rightarrow> nat \<Rightarrow> nat list \<Rightarrow>
   (nat \<times> Component) list \<Rightarrow> parentArr \<Rightarrow> (Component list) option" where
  "updateStates keyToSetId rootToMatrixIdx x matrixSize vs [] parent = Some []"
| "updateStates keyToSetId rootToMatrixIdx x matrixSize vs ((pos, c) # pcs) parent =
     (if burnt (state c) then
        map_option (\<lambda>cs'. c\<lparr>state := (state c)\<lparr>current := Fin 0, powerW := Fin 0\<rparr>\<rparr> # cs')
          (updateStates keyToSetId rootToMatrixIdx x matrixSize vs pcs parent)
      else
        Option.bind (nodeOf keyToSetId rootToMatrixIdx parent c 0) (\<lambda>(n1, p1).
        Option.bind (nodeOf keyToSetId rootToMatrixIdx p1 c 1) (\<lambda>(n2, p2).
          map_option (\<lambda>cs'. updateComponent x matrixSize vs pos n1 n2 c # cs')
            (updateStates keyToSetId rootToMatrixIdx x matrixSize vs pcs p2))))"

section \<open>The solver\<close>

text \<open>
  The phases of \<open>solveCircuit\<close>. A result \<open>None\<close> is a call that does not return normally: a
  TypeError of the assembly or a \<open>find\<close> that does not end. \<open>nodes\<close> is the identification of
  nodes: the sets, the unions of the wires and the distinct roots.
\<close>

definition nodes ::
  "App \<Rightarrow> ((termKey \<Rightarrow> nat option) \<times> parentArr \<times> elem list) option" where
  "nodes app =
     (case makeSets (components app) of (pn, keyToSetId) \<Rightarrow>
        Option.bind (unionWires keyToSetId (wires app) (fst pn)) (\<lambda>parent1.
        Option.bind (collectRoots keyToSetId (termKeys (components app)) (parent1, []))
          (\<lambda>(parent2, distinctRoots). Some (keyToSetId, parent2, distinctRoots))))"

text \<open>The linear system of a call that reaches the assembly, before the solve.\<close>

definition buildSystem ::
  "(termKey \<Rightarrow> nat option) \<Rightarrow> (elem \<Rightarrow> int option) \<Rightarrow> nat \<Rightarrow> Component list \<Rightarrow> parentArr \<Rightarrow>
   (parentArr \<times> Matrix \<times> jsnum list) option" where
  "buildSystem keyToSetId rootToMatrixIdx matrixSize cs parent =
     (let vs = voltageSources cs;
          numVars = matrixSize + length vs
      in Option.bind
           (assemble keyToSetId rootToMatrixIdx matrixSize vs (enumerate 0 cs)
              (parent, newMatrix numVars numVars, replicate numVars (Fin 0)))
           (\<lambda>(parent', A, b). Some (parent', addLeakage matrixSize A, b)))"

definition zeroState :: "Component \<Rightarrow> Component" where
  "zeroState c = c\<lparr>state := (state c)\<lparr>current := Fin 0, voltageDrop := Fin 0\<rparr>\<rparr>"

definition solveCircuit :: "App \<Rightarrow> App option" where
  "solveCircuit app =
     Option.bind (nodes app) (\<lambda>(keyToSetId, parent2, distinctRoots).
       if length distinctRoots = 0 then Some app
       else
         Option.bind (pickGround keyToSetId (components app) distinctRoots parent2)
           (\<lambda>(groundRoot, parent3).
         (case assignIndices groundRoot distinctRoots of (rootToMatrixIdx, matrixSize) \<Rightarrow>
           if matrixSize = 0 then Some (app\<lparr>components := map zeroState (components app)\<rparr>)
           else
             Option.bind
               (buildSystem keyToSetId rootToMatrixIdx matrixSize (components app) parent3)
               (\<lambda>(parent4, A, b).
             (let x = solve A b
              in map_option (\<lambda>cs'. app\<lparr>components := cs'\<rparr>)
                   (updateStates keyToSetId rootToMatrixIdx x matrixSize
                      (voltageSources (components app)) (enumerate 0 (components app))
                      parent4))))))"

text \<open>
  The linear system that a call assembles and solves; \<open>None\<close> when the call returns before
  the assembly (no terminal, or no node beside ground) or does not return normally.
\<close>

definition systemOf :: "App \<Rightarrow> (Matrix \<times> jsnum list) option" where
  "systemOf app =
     Option.bind (nodes app) (\<lambda>(keyToSetId, parent2, distinctRoots).
       if length distinctRoots = 0 then None
       else
         Option.bind (pickGround keyToSetId (components app) distinctRoots parent2)
           (\<lambda>(groundRoot, parent3).
         (case assignIndices groundRoot distinctRoots of (rootToMatrixIdx, matrixSize) \<Rightarrow>
           if matrixSize = 0 then None
           else map_option snd
                  (buildSystem keyToSetId rootToMatrixIdx matrixSize (components app) parent3))))"

section \<open>Notions of the specification\<close>

text \<open>
  A graph as the editor builds it: every component has the two terminals 0 and 1 of
  \<open>getTerminalsConfig\<close>, and every wire ends at terminals of components of the graph.
\<close>

definition wellFormed :: "App \<Rightarrow> bool" where
  "wellFormed app \<longleftrightarrow>
     (\<forall>c \<in> set (components app). map tid (terminals c) = [0, 1]) \<and>
     (\<forall>w \<in> set (wires app).
        getTermKey (startComp w) (startTermId w) \<in> set (termKeys (components app)) \<and>
        getTermKey (endComp w) (endTermId w) \<in> set (termKeys (components app)))"

text \<open>
  The nodes of the specification: two terminals are the same node if wires lead from one to
  the other, and the nodes are the classes of the terminals of all components, burnt or not.
\<close>

definition wireKeys :: "App \<Rightarrow> (termKey \<times> termKey) set" where
  "wireKeys app =
     (\<lambda>w. (getTermKey (startComp w) (startTermId w), getTermKey (endComp w) (endTermId w))) `
       set (wires app)"

definition sameNode :: "App \<Rightarrow> (termKey \<times> termKey) set" where
  "sameNode app = (wireKeys app \<union> (wireKeys app)\<inverse>)\<^sup>*"

definition nodeClasses :: "App \<Rightarrow> termKey set set" where
  "nodeClasses app = set (termKeys (components app)) // sameNode app"


text \<open>
  Two components that a call cannot tell apart: they differ in the state at most, agree on
  the burnt flag, and are no diodes (a diode is read by its stored voltage drop as well).
\<close>

definition sameInputs :: "Component \<Rightarrow> Component \<Rightarrow> bool" where
  "sameInputs c c' \<longleftrightarrow>
     c' = c\<lparr>state := state c'\<rparr> \<and> burnt (state c') = burnt (state c) \<and> ctype c \<noteq> ''diode''"

section \<open>Notions of the proofs\<close>

text \<open>
  The root that \<open>find\<close> reaches from an element, as a relation; a forest is an array in
  which every element reaches a root; two elements are in the same set if their roots are
  equal. \<open>idParent\<close> is the array after \<open>n\<close> calls of \<open>makeSet\<close>, \<open>addKey\<close> one step of the
  loop that makes the sets, \<open>keysOk\<close> what holds of the map \<open>keyToSetId\<close>, and \<open>wireElems\<close> the
  pairs of sets that the wires join.
\<close>

inductive rep :: "parentArr \<Rightarrow> elem \<Rightarrow> elem \<Rightarrow> bool" for parent :: parentArr where
  root: "parent i = i \<Longrightarrow> rep parent i i"
| step: "parent i \<noteq> i \<Longrightarrow> rep parent (parent i) r \<Longrightarrow> rep parent i r"

definition forest :: "parentArr \<Rightarrow> bool" where
  "forest parent \<longleftrightarrow> (\<forall>i. \<exists>r. rep parent i r)"

definition repOf :: "parentArr \<Rightarrow> elem \<Rightarrow> elem" where
  "repOf parent i = (THE r. rep parent i r)"

definition sameSet :: "parentArr \<Rightarrow> (elem \<times> elem) set" where
  "sameSet parent = {(a, b). repOf parent a = repOf parent b}"

definition wireElems :: "(termKey \<Rightarrow> nat option) \<Rightarrow> Wire list \<Rightarrow> (elem \<times> elem) set" where
  "wireElems K ws =
     (\<lambda>w. (K (getTermKey (startComp w) (startTermId w)),
            K (getTermKey (endComp w) (endTermId w)))) ` set ws"

definition idParent :: "nat \<Rightarrow> parentArr" where
  "idParent n = (\<lambda>e. case e of None \<Rightarrow> None | Some i \<Rightarrow> if i < n then Some i else None)"

definition addKey ::
  "(parentArr \<times> nat) \<times> (termKey \<Rightarrow> nat option) \<Rightarrow> termKey \<Rightarrow>
   (parentArr \<times> nat) \<times> (termKey \<Rightarrow> nat option)" where
  "addKey st k = (case st of (pn, K) \<Rightarrow> (case makeSet pn of (pn', p) \<Rightarrow> (pn', K(k \<mapsto> p))))"

definition keysOk :: "nat \<Rightarrow> (termKey \<Rightarrow> nat option) \<Rightarrow> bool" where
  "keysOk n K \<longleftrightarrow> (\<forall>k v. K k = Some v \<longrightarrow> v < n) \<and> inj_on K (dom K)"

section \<open>Example circuits\<close>

text \<open>The loop of the demo board: terminal 1 to terminal 1, terminal 0 to terminal 0.\<close>

definition loopWires :: "Wire list" where
  "loopWires = [\<lparr>startComp = ''b'', startTermId = 1, endComp = ''r'', endTermId = 1\<rparr>,
                \<lparr>startComp = ''r'', startTermId = 0, endComp = ''b'', endTermId = 0\<rparr>]"

text \<open>A battery as constructed (9 V, 1.5 Ohm) in a loop with a component of id \<open>r\<close>.\<close>

definition loopWith :: "Component \<Rightarrow> App" where
  "loopWith c = \<lparr>components = [newComponent ''battery'' 0 0 ''b'', c], wires = loopWires\<rparr>"

text \<open>What \<open>updateCompProp\<close> does for the key \<open>resistance\<close>.\<close>

definition withResistance :: "jsnum \<Rightarrow> Component \<Rightarrow> Component" where
  "withResistance v c = c\<lparr>properties := (properties c)\<lparr>resistance := v\<rparr>\<rparr>"

text \<open>The resistor as constructed: 100 Ohm, rated 0.5 W.\<close>

definition seriesCircuit :: App where
  "seriesCircuit = loopWith (newComponent ''resistor'' 0 (- 100) ''r'')"

definition zeroOhmCircuit :: App where
  "zeroOhmCircuit = loopWith (withResistance (Fin 0) (newComponent ''resistor'' 0 (- 100) ''r''))"

text \<open>What the properties panel stores for the text \<open>-100\<close>.\<close>

definition negativeOhmCircuit :: App where
  "negativeOhmCircuit =
     loopWith (withResistance (Fin (- 100)) (newComponent ''resistor'' 0 (- 100) ''r''))"

definition kiloOhmCircuit :: App where
  "kiloOhmCircuit =
     loopWith (withResistance (Fin 1000) (newComponent ''resistor'' 0 (- 100) ''r''))"

text \<open>A closed switch whose property \<open>resistance\<close> is 5.\<close>

definition closedSwitch5 :: Component where
  "closedSwitch5 =
     (newComponent ''switch'' 0 (- 100) ''r'')\<lparr>properties :=
        (DefaultProperties ''switch'')\<lparr>closedSw := True, resistance := Fin 5\<rparr>\<rparr>"

definition switchCircuit :: App where
  "switchCircuit = loopWith closedSwitch5"

text \<open>A resistor that burnt at 9 V, some frames ago.\<close>

definition burntResistor :: Component where
  "burntResistor =
     (newComponent ''resistor'' 0 (- 100) ''r'')\<lparr>state :=
        \<lparr>voltageDrop = Fin 9, current = Fin 0, powerW = Fin 0, burnt = True,
         nodeIds = (NodeIdx (Some (- 1)), NodeIdx (Some 0)), animationOffset = Fin 0\<rparr>\<rparr>"

text \<open>The loop with a third wire across the battery: all four terminals are one node.\<close>

definition shortedCircuit :: App where
  "shortedCircuit =
     (loopWith burntResistor)\<lparr>wires := loopWires @
        [\<lparr>startComp = ''b'', startTermId = 0, endComp = ''r'', endTermId = 1\<rparr>]\<rparr>"

text \<open>
  The burnt resistor alone, with its list of terminals emptied: a graph without any terminal
  that still holds a component. The constructor gives every component two terminals.
\<close>

definition looseResistor :: App where
  "looseResistor = \<lparr>components = [burntResistor\<lparr>terminals := []\<rparr>], wires = []\<rparr>"

text \<open>
  One component of id \<open>r\<close> alone, as the first phases see it: its two terminals are the sets
  0 and 1, set 0 is ground and set 1 is node 0.
\<close>

definition keys1 :: "termKey \<Rightarrow> nat option" where
  "keys1 = [getTermKey ''r'' 0 \<mapsto> 0, getTermKey ''r'' 1 \<mapsto> 1]"

definition parent1 :: parentArr where
  "parent1 = (\<lambda>_. None)(Some 0 := Some 0, Some 1 := Some 1)"

definition index1 :: "elem \<Rightarrow> int option" where
  "index1 = [Some 0 \<mapsto> - 1, Some 1 \<mapsto> 0]"

text \<open>A diode whose last solve left 1 V over it, above its threshold of 0.7 V.\<close>

definition conductingDiode :: Component where
  "conductingDiode =
     (newComponent ''diode'' 0 0 ''r'')\<lparr>state :=
        \<lparr>voltageDrop = Fin 1, current = Fin 10, powerW = Fin 10, burnt = False,
         nodeIds = (NodeIdx (Some (- 1)), NodeIdx (Some 0)), animationOffset = Fin 0\<rparr>\<rparr>"

text \<open>The states that the solver leaves in the loops above.\<close>

definition solvedState :: "jsnum \<Rightarrow> jsnum \<Rightarrow> jsnum \<Rightarrow> bool \<Rightarrow> State" where
  "solvedState vd i p bt =
     \<lparr>voltageDrop = vd, current = i, powerW = p, burnt = bt,
      nodeIds = (NodeIdx (Some (- 1)), NodeIdx (Some 0)), animationOffset = Fin 0\<rparr>"

definition loopOf :: "State \<Rightarrow> Component \<Rightarrow> State \<Rightarrow> App" where
  "loopOf sb c sc =
     \<lparr>components = [(newComponent ''battery'' 0 0 ''b'')\<lparr>state := sb\<rparr>, c\<lparr>state := sc\<rparr>],
      wires = loopWires\<rparr>"

definition seriesSolved :: App where
  "seriesSolved =
     loopOf
       (solvedState (Fin (18000000000 / 1969999997)) (Fin (- (180000018 / 1969999997)))
          (Fin (48600009720000486 / 3880899988180000009)) False)
       (newComponent ''resistor'' 0 (- 100) ''r'')
       (solvedState (Fin (18000000000 / 1969999997)) (Fin (180000000 / 1969999997))
          (Fin (3240000000000000000 / 3880899988180000009)) True)"

definition seriesSolvedAgain :: App where
  "seriesSolvedAgain =
     loopOf
       (solvedState (Fin (18000000000 / 1999999997)) (Fin (- (18 / 1999999997)))
          (Fin (486 / 3999999988000000009)) False)
       (newComponent ''resistor'' 0 (- 100) ''r'')
       (solvedState (Fin (18000000000 / 1969999997)) (Fin 0) (Fin 0) True)"

definition kiloOhmSolved :: App where
  "kiloOhmSolved =
     loopOf
       (solvedState (Fin (18000000000 / 1996999997)) (Fin (- (18000018 / 1996999997)))
          (Fin (486000972000486 / 3988008988018000009)) False)
       (withResistance (Fin 1000) (newComponent ''resistor'' 0 (- 100) ''r''))
       (solvedState (Fin (18000000000 / 1996999997)) (Fin (18000000 / 1996999997))
          (Fin (324000000000000000 / 3988008988018000009)) False)"

definition shortedSolved :: App where
  "shortedSolved =
     shortedCircuit\<lparr>components :=
       [newComponent ''battery'' 0 0 ''b'',
        burntResistor\<lparr>state := solvedState (Fin 0) (Fin 0) (Fin 0) True\<rparr>]\<rparr>"


section \<open>Evaluations\<close>

lemma seriesCircuit_solved: "solveCircuit seriesCircuit = Some seriesSolved"
  by code_simp

lemma seriesSolved_solved: "solveCircuit seriesSolved = Some seriesSolvedAgain"
  by code_simp

lemma kiloOhmCircuit_solved: "solveCircuit kiloOhmCircuit = Some kiloOhmSolved"
  by code_simp

lemma shortedCircuit_solved: "solveCircuit shortedCircuit = Some shortedSolved"
  by code_simp

lemma looseResistor_solved: "solveCircuit looseResistor = Some looseResistor"
  by code_simp

lemma termKeys_looseResistor: "termKeys (components looseResistor) = []"
  by code_simp

lemma systemOf_seriesSolved: "systemOf seriesSolved \<noteq> None"
  by code_simp

lemma systemOf_shortedCircuit: "systemOf shortedCircuit = None"
  by code_simp


lemma wellFormed_examples:
  "wellFormed seriesCircuit" "wellFormed seriesSolved" "wellFormed shortedCircuit"
  by code_simp+

section \<open>The disjoint sets\<close>

lemma rep_root: "rep p i r \<Longrightarrow> p r = r"
  by (induction rule: rep.induct) simp_all

lemma rep_det: "rep p i r \<Longrightarrow> rep p i s \<Longrightarrow> r = s"
proof (induction arbitrary: s rule: rep.induct)
  case (root i)
  from root.prems root.hyps show ?case by (cases rule: rep.cases) simp_all
next
  case (step i r)
  from step.prems step.hyps(1) have "rep p (p i) s" by (cases rule: rep.cases) simp_all
  with step.IH show ?case by simp
qed

lemma repOf_eq: "rep p i r \<Longrightarrow> repOf p i = r"
  unfolding repOf_def by (rule the_equality) (auto dest: rep_det)

lemma forest_rep: "forest p \<Longrightarrow> rep p i (repOf p i)"
  unfolding forest_def using repOf_eq by metis

lemma repOf_root: "forest p \<Longrightarrow> p (repOf p i) = repOf p i"
  using forest_rep rep_root by blast

lemma repOf_self: "p i = i \<Longrightarrow> repOf p i = i"
  by (simp add: repOf_eq rep.root)

lemma repOf_step: "forest p \<Longrightarrow> repOf p (p i) = repOf p i"
proof (cases "p i = i")
  case True
  then show ?thesis by simp
next
  case False
  assume "forest p"
  then have "rep p (p i) (repOf p (p i))" by (rule forest_rep)
  with False have "rep p i (repOf p (p i))" by (rule rep.step)
  then show ?thesis by (simp add: repOf_eq)
qed

text \<open>Path compression and linking of two roots.\<close>

lemma compress_rep:
  assumes "rep q i r" and "rep q j s"
  shows "rep (q(i := r)) j s"
  using assms(2)
proof (induction rule: rep.induct)
  case (root j)
  show ?case
  proof (cases "j = i")
    case True
    with root assms(1) have "r = i" using rep_det rep.root by metis
    with True root show ?thesis by (simp add: rep.root)
  next
    case False
    with root show ?thesis by (simp add: rep.root)
  qed
next
  case (step j s)
  show ?case
  proof (cases "j = i")
    case True
    with step.hyps assms(1) have rs: "s = r" using rep_det rep.step by metis
    from rep_root[OF assms(1)] have rr: "q r = r" .
    from True step.hyps(1) rr have ne: "r \<noteq> i" by auto
    then have "rep (q(i := r)) r r" using rr by (simp add: rep.root)
    with ne have "rep (q(i := r)) i r" by - (rule rep.step, simp_all)
    then show ?thesis unfolding True rs .
  next
    case False
    with step show ?thesis by - (rule rep.step, simp_all)
  qed
qed

lemma link_rep:
  assumes "p a = a" and "p b = b" and "a \<noteq> b" and "rep p k s"
  shows "rep (p(a := b)) k (if s = a then b else s)"
  using assms(4)
proof (induction rule: rep.induct)
  case (root k)
  show ?case
  proof (cases "k = a")
    case True
    from assms(2,3) have "rep (p(a := b)) b b" by (simp add: rep.root)
    with assms(3) have "rep (p(a := b)) a b" by - (rule rep.step, simp_all)
    moreover from root True have "(if k = a then b else k) = b" by simp
    ultimately show ?thesis unfolding True by (simp only: if_True)
  next
    case False
    with root show ?thesis by (simp add: rep.root)
  qed
next
  case (step k s)
  from step.hyps(1) assms(1) have "k \<noteq> a" by auto
  with step show ?case by - (rule rep.step, simp_all)
qed

lemma find_uf_rep:
  assumes "rep p i r"
  shows "\<exists>p'. find_uf p i = Some (r, p') \<and> (\<forall>j s. rep p j s \<longrightarrow> rep p' j s)"
  using assms
proof (induction rule: rep.induct)
  case (root i)
  then have "find_uf p i = Some (i, p)" by (subst find_uf.simps) simp
  then show ?case by simp
next
  case (step i r)
  from step.IH obtain p1 where f: "find_uf p (p i) = Some (r, p1)"
    and k: "\<forall>j s. rep p j s \<longrightarrow> rep p1 j s" by blast
  from step.hyps f have "find_uf p i = Some (r, p1(i := r))"
    by (subst find_uf.simps) simp
  moreover have "\<forall>j s. rep p j s \<longrightarrow> rep (p1(i := r)) j s"
  proof (intro allI impI)
    fix j s assume "rep p j s"
    with k have a: "rep p1 j s" by simp
    from step.hyps have "rep p i r" by (rule rep.step)
    with k have b: "rep p1 i r" by simp
    show "rep (p1(i := r)) j s" by (rule compress_rep[OF b a])
  qed
  ultimately show ?case by blast
qed

lemma forest_keep:
  assumes "forest p" and "\<forall>j s. rep p j s \<longrightarrow> rep p' j s"
  shows "forest p'" and "repOf p' = repOf p"
proof -
  show "forest p'" using assms unfolding forest_def by blast
  show "repOf p' = repOf p"
  proof
    fix i
    from assms have "rep p' i (repOf p i)" using forest_rep by blast
    then show "repOf p' i = repOf p i" by (rule repOf_eq)
  qed
qed

lemma find_uf_forest:
  assumes "forest p"
  obtains p' where "find_uf p i = Some (repOf p i, p')" and "forest p'" and "repOf p' = repOf p"
proof -
  from find_uf_rep[OF forest_rep[OF assms, of i]] obtain p' where
    "find_uf p i = Some (repOf p i, p')" and "\<forall>j s. rep p j s \<longrightarrow> rep p' j s" by blast
  with forest_keep[OF assms this(2)] that show thesis by blast
qed

lemma sameSet_refl: "(a, a) \<in> sameSet p"
  by (simp add: sameSet_def)

lemma sameSet_rtrancl: "(sameSet p)\<^sup>* = sameSet p"
proof
  show "(sameSet p)\<^sup>* \<subseteq> sameSet p"
  proof
    fix x assume "x \<in> (sameSet p)\<^sup>*"
    then obtain a b where x: "x = (a, b)" and ab: "(a, b) \<in> (sameSet p)\<^sup>*" by (cases x) simp
    from ab have "(a, b) \<in> sameSet p"
      by (induction rule: rtrancl_induct) (simp_all add: sameSet_def)
    with x show "x \<in> sameSet p" by simp
  qed
  show "sameSet p \<subseteq> (sameSet p)\<^sup>*" by auto
qed

lemma rtrancl_Un_absorb: "(A\<^sup>* \<union> B)\<^sup>* = (A \<union> B)\<^sup>*"
proof
  have "A\<^sup>* \<subseteq> (A \<union> B)\<^sup>*" by (rule rtrancl_mono) simp
  moreover have "B \<subseteq> (A \<union> B)\<^sup>*" by auto
  ultimately have "A\<^sup>* \<union> B \<subseteq> (A \<union> B)\<^sup>*" by simp
  then show "(A\<^sup>* \<union> B)\<^sup>* \<subseteq> (A \<union> B)\<^sup>*" by (rule rtrancl_subset_rtrancl)
  have "A \<union> B \<subseteq> A\<^sup>* \<union> B" by auto
  then show "(A \<union> B)\<^sup>* \<subseteq> (A\<^sup>* \<union> B)\<^sup>*" by (rule rtrancl_mono)
qed

lemma union_uf_sameSet:
  assumes "forest p"
  obtains p' where "union_uf p i j = Some p'" and "forest p'"
    and "sameSet p' = (sameSet p \<union> {(i, j), (j, i)})\<^sup>*"
proof -
  obtain p1 where f1: "find_uf p i = Some (repOf p i, p1)" and t1: "forest p1"
    and r1: "repOf p1 = repOf p" using find_uf_forest[OF assms] by blast
  obtain p2 where f2: "find_uf p1 j = Some (repOf p1 j, p2)" and t2: "forest p2"
    and r2: "repOf p2 = repOf p1" using find_uf_forest[OF t1] by blast
  let ?ri = "repOf p i" and ?rj = "repOf p j"
  let ?X = "{(i, j), (j, i)}"
  show thesis
  proof (cases "?ri = ?rj")
    case True
    with f1 f2 r1 have u: "union_uf p i j = Some p2" by (simp add: union_uf_def)
    from r1 r2 have s: "sameSet p2 = sameSet p" by (simp add: sameSet_def)
    from True have "?X \<subseteq> sameSet p" by (auto simp add: sameSet_def)
    then have "sameSet p \<union> ?X = sameSet p" by auto
    with s have "sameSet p2 = (sameSet p \<union> ?X)\<^sup>*" by (simp add: sameSet_rtrancl)
    with u t2 that show thesis by blast
  next
    case False
    let ?p' = "p2(?ri := ?rj)"
    from f1 f2 r1 False have u: "union_uf p i j = Some ?p'" by (simp add: union_uf_def)
    have ri: "p2 ?ri = ?ri" using repOf_root[OF t2, of i] r1 r2 by simp
    have rj: "p2 ?rj = ?rj" using repOf_root[OF t2, of j] r1 r2 by simp
    have r12: "repOf p2 = repOf p" using r1 r2 by simp
    have l: "rep ?p' k (if repOf p k = ?ri then ?rj else repOf p k)" for k
      using link_rep[OF ri rj False forest_rep[OF t2, of k]] unfolding r12 .
    then have t': "forest ?p'" unfolding forest_def by blast
    have m: "repOf ?p' k = (if repOf p k = ?ri then ?rj else repOf p k)" for k
      using l by (rule repOf_eq)
    have "sameSet ?p' = (sameSet p \<union> ?X)\<^sup>*"
    proof
      show "sameSet ?p' \<subseteq> (sameSet p \<union> ?X)\<^sup>*"
      proof
        fix x assume xin: "x \<in> sameSet ?p'"
        obtain a b where x: "x = (a, b)" by (cases x)
        from xin x have e: "repOf ?p' a = repOf ?p' b" by (simp add: sameSet_def)
        consider "repOf p a = repOf p b" | "repOf p a = ?ri" "repOf p b = ?rj"
          | "repOf p a = ?rj" "repOf p b = ?ri"
          using e unfolding m by (auto split: if_splits)
        then have "(a, b) \<in> (sameSet p \<union> ?X)\<^sup>*"
        proof cases
          case 1
          then have "(a, b) \<in> sameSet p \<union> ?X" by (simp add: sameSet_def)
          then show ?thesis by (rule r_into_rtrancl)
        next
          case 2
          then have "(a, i) \<in> sameSet p \<union> ?X" "(i, j) \<in> sameSet p \<union> ?X"
            "(j, b) \<in> sameSet p \<union> ?X" by (simp_all add: sameSet_def)
          then show ?thesis by (meson rtrancl.rtrancl_into_rtrancl r_into_rtrancl)
        next
          case 3
          then have "(a, j) \<in> sameSet p \<union> ?X" "(j, i) \<in> sameSet p \<union> ?X"
            "(i, b) \<in> sameSet p \<union> ?X" by (simp_all add: sameSet_def)
          then show ?thesis by (meson rtrancl.rtrancl_into_rtrancl r_into_rtrancl)
        qed
        with x show "x \<in> (sameSet p \<union> ?X)\<^sup>*" by simp
      qed
      have "sameSet p \<union> ?X \<subseteq> sameSet ?p'"
        unfolding sameSet_def using m False by auto
      then have "(sameSet p \<union> ?X)\<^sup>* \<subseteq> (sameSet ?p')\<^sup>*" by (rule rtrancl_mono)
      then show "(sameSet p \<union> ?X)\<^sup>* \<subseteq> sameSet ?p'" by (simp add: sameSet_rtrancl)
    qed
    with u t' that show thesis by blast
  qed
qed

lemma unionWires_sameSet:
  assumes "forest p"
  shows "\<exists>p'. unionWires K ws p = Some p' \<and> forest p' \<and>
           sameSet p' = (sameSet p \<union> wireElems K ws \<union> (wireElems K ws)\<inverse>)\<^sup>*"
  using assms
proof (induction ws arbitrary: p)
  case Nil
  then show ?case by (simp add: wireElems_def sameSet_rtrancl)
next
  case (Cons w ws)
  let ?i = "K (getTermKey (startComp w) (startTermId w))"
  let ?j = "K (getTermKey (endComp w) (endTermId w))"
  obtain p1 where u: "union_uf p ?i ?j = Some p1" and t1: "forest p1"
    and s1: "sameSet p1 = (sameSet p \<union> {(?i, ?j), (?j, ?i)})\<^sup>*"
    using union_uf_sameSet[OF Cons.prems] by blast
  from Cons.IH[OF t1] obtain p' where w: "unionWires K ws p1 = Some p'" and t': "forest p'"
    and s': "sameSet p' = (sameSet p1 \<union> wireElems K ws \<union> (wireElems K ws)\<inverse>)\<^sup>*"
    by blast
  have "sameSet p' = ((sameSet p \<union> {(?i, ?j), (?j, ?i)})\<^sup>* \<union> (wireElems K ws \<union> (wireElems K ws)\<inverse>))\<^sup>*"
    unfolding s' s1 by (simp only: Un_assoc)
  also have "\<dots> = (sameSet p \<union> {(?i, ?j), (?j, ?i)} \<union> (wireElems K ws \<union> (wireElems K ws)\<inverse>))\<^sup>*"
    by (rule rtrancl_Un_absorb)
  also have "sameSet p \<union> {(?i, ?j), (?j, ?i)} \<union> (wireElems K ws \<union> (wireElems K ws)\<inverse>) =
      sameSet p \<union> wireElems K (w # ws) \<union> (wireElems K (w # ws))\<inverse>"
    by (auto simp add: wireElems_def)
  finally have "sameSet p' = (sameSet p \<union> wireElems K (w # ws) \<union> (wireElems K (w # ws))\<inverse>)\<^sup>*" .
  with u w t' show ?case by simp
qed

lemma makeSets_inner:
  "foldl (\<lambda>(pn, keyToSetId) t.
            (case makeSet pn of (pn', p) \<Rightarrow> (pn', keyToSetId(getTermKey i (tid t) \<mapsto> p))))
     st ts =
   foldl addKey st (map (\<lambda>t. getTermKey i (tid t)) ts)"
  by (induction ts arbitrary: st) (simp_all add: addKey_def case_prod_unfold)

lemma makeSets_outer:
  "foldl (\<lambda>st c. foldl (\<lambda>(pn, keyToSetId) t.
                             (case makeSet pn of (pn', p) \<Rightarrow>
                                (pn', keyToSetId(getTermKey (cid c) (tid t) \<mapsto> p))))
                      st (terminals c)) st cs =
   foldl addKey st (termKeys cs)"
  by (induction cs arbitrary: st) (simp_all add: termKeys_def makeSets_inner)

lemma makeSets_flat: "makeSets cs = foldl addKey (((\<lambda>_. None), 0), Map.empty) (termKeys cs)"
  unfolding makeSets_def by (rule makeSets_outer)

lemma idParent_0: "idParent 0 = (\<lambda>_. None)"
  by (auto simp add: idParent_def fun_eq_iff split: option.splits)

lemma idParent_Suc: "(idParent n)(Some n := Some n) = idParent (Suc n)"
  by (auto simp add: idParent_def fun_eq_iff split: option.splits)

lemma addKey_idParent: "addKey ((idParent n, n), K) k = ((idParent (Suc n), Suc n), K(k \<mapsto> n))"
  by (simp add: addKey_def makeSet_def idParent_Suc)

lemma keysOk_add:
  assumes "keysOk n K"
  shows "keysOk (Suc n) (K(k \<mapsto> n))"
proof -
  from assms have b: "\<And>k v. K k = Some v \<Longrightarrow> v < n" and i: "inj_on K (dom K)"
    by (auto simp add: keysOk_def)
  have "inj_on (K(k \<mapsto> n)) (dom (K(k \<mapsto> n)))"
  proof (rule inj_onI)
    fix x y
    assume x: "x \<in> dom (K(k \<mapsto> n))" and y: "y \<in> dom (K(k \<mapsto> n))"
      and e: "(K(k \<mapsto> n)) x = (K(k \<mapsto> n)) y"
    show "x = y"
    proof (cases "x = k")
      case True
      with e have "(K(k \<mapsto> n)) y = Some n" by simp
      with b[of y n] have "y = k" by (cases "y = k") auto
      with True show ?thesis by simp
    next
      case False
      with e b[of x n] x have yk: "y \<noteq> k" by (cases "y = k") auto
      with False x y e have "x \<in> dom K" "y \<in> dom K" "K x = K y" by auto
      with i show ?thesis by (auto dest: inj_onD)
    qed
  qed
  moreover have "\<forall>k' v. (K(k \<mapsto> n)) k' = Some v \<longrightarrow> v < Suc n"
    using b by (auto simp add: less_Suc_eq)
  ultimately show ?thesis by (simp add: keysOk_def)
qed

lemma foldl_addKey:
  "\<exists>K'. foldl addKey ((idParent n, n), K) ks =
          ((idParent (n + length ks), n + length ks), K') \<and>
        dom K' = dom K \<union> set ks \<and> (keysOk n K \<longrightarrow> keysOk (n + length ks) K')"
proof (induction ks arbitrary: n K)
  case Nil
  then show ?case by simp
next
  case (Cons k ks)
  from Cons.IH[of "Suc n" "K(k \<mapsto> n)"] obtain K' where
    f: "foldl addKey ((idParent (Suc n), Suc n), K(k \<mapsto> n)) ks =
          ((idParent (Suc n + length ks), Suc n + length ks), K')"
    and d: "dom K' = dom (K(k \<mapsto> n)) \<union> set ks"
    and o: "keysOk (Suc n) (K(k \<mapsto> n)) \<longrightarrow> keysOk (Suc n + length ks) K'"
    by blast
  from f have "foldl addKey ((idParent n, n), K) (k # ks) =
          ((idParent (n + length (k # ks)), n + length (k # ks)), K')"
    by (simp add: addKey_idParent)
  moreover from d have "dom K' = dom K \<union> set (k # ks)" by auto
  moreover from o keysOk_add have "keysOk n K \<longrightarrow> keysOk (n + length (k # ks)) K'" by auto
  ultimately show ?case by blast
qed

lemma makeSets_facts:
  obtains K where "makeSets cs = ((idParent (length (termKeys cs)), length (termKeys cs)), K)"
    and "dom K = set (termKeys cs)" and "keysOk (length (termKeys cs)) K"
proof -
  have "keysOk 0 Map.empty" by (simp add: keysOk_def)
  with foldl_addKey[of 0 Map.empty "termKeys cs"] that show thesis
    by (auto simp add: makeSets_flat idParent_0)
qed

lemma idParent_rep:
  "rep (idParent n) e (idParent n e)"
proof (cases "idParent n e = e")
  case True
  then show ?thesis by (simp add: rep.root)
next
  case False
  then have "idParent n e = None" by (auto simp add: idParent_def split: option.splits if_splits)
  moreover have "rep (idParent n) None None" by (rule rep.root) (simp add: idParent_def)
  ultimately show ?thesis using False by - (rule rep.step, simp_all)
qed

lemma idParent_forest: "forest (idParent n)"
  unfolding forest_def using idParent_rep by blast

lemma idParent_repOf: "repOf (idParent n) = idParent n"
  using idParent_rep by (auto simp add: fun_eq_iff intro: repOf_eq)

text \<open>The set of distinct roots.\<close>

lemma set_foldl_setAdd: "set (foldl setAdd acc xs) = set acc \<union> set xs"
  by (induction xs arbitrary: acc) (auto simp add: setAdd_def)

lemma distinct_foldl_setAdd: "distinct acc \<Longrightarrow> distinct (foldl setAdd acc xs)"
  by (induction xs arbitrary: acc) (auto simp add: setAdd_def)

lemma collectRoots_forest:
  assumes "forest p"
  shows "\<exists>p'. collectRoots K ks (p, acc) =
                 Some (p', foldl setAdd acc (map (\<lambda>k. repOf p (K k)) ks)) \<and>
               forest p' \<and> repOf p' = repOf p"
  using assms
proof (induction ks arbitrary: p acc)
  case Nil
  then show ?case by simp
next
  case (Cons k ks)
  obtain p1 where f: "find_uf p (K k) = Some (repOf p (K k), p1)" and t1: "forest p1"
    and r1: "repOf p1 = repOf p" using find_uf_forest[OF Cons.prems] by blast
  from Cons.IH[OF t1, of "setAdd acc (repOf p (K k))"] f r1 show ?case by simp
qed

lemma nodes_facts:
  obtains K p2 where
    "nodes app = Some (K, p2, foldl setAdd [] (map (\<lambda>k. repOf p2 (K k)) (termKeys (components app))))"
    and "dom K = set (termKeys (components app))"
    and "keysOk (length (termKeys (components app))) K"
    and "forest p2"
    and "sameSet p2 = (sameSet (idParent (length (termKeys (components app)))) \<union>
           wireElems K (wires app) \<union> (wireElems K (wires app))\<inverse>)\<^sup>*"
proof -
  let ?n = "length (termKeys (components app))"
  obtain K where m: "makeSets (components app) = ((idParent ?n, ?n), K)"
    and d: "dom K = set (termKeys (components app))" and o: "keysOk ?n K"
    using makeSets_facts by blast
  from unionWires_sameSet[OF idParent_forest, of K "wires app" ?n] obtain p1 where
    u: "unionWires K (wires app) (idParent ?n) = Some p1" and t1: "forest p1"
    and s1: "sameSet p1 = (sameSet (idParent ?n) \<union>
           wireElems K (wires app) \<union> (wireElems K (wires app))\<inverse>)\<^sup>*"
    by blast
  from collectRoots_forest[OF t1, of K "termKeys (components app)" "[]"] obtain p2 where
    c: "collectRoots K (termKeys (components app)) (p1, []) =
          Some (p2, foldl setAdd [] (map (\<lambda>k. repOf p1 (K k)) (termKeys (components app))))"
    and t2: "forest p2" and r2: "repOf p2 = repOf p1"
    by blast
  from r2 have s2: "sameSet p2 = sameSet p1" by (simp add: sameSet_def)
  have "nodes app = Some (K, p2,
      foldl setAdd [] (map (\<lambda>k. repOf p2 (K k)) (termKeys (components app))))"
    unfolding nodes_def using m u c r2 by simp
  with d o t2 s1 s2 that show thesis by simp
qed

lemma pickGround_facts:
  assumes "forest p2"
  obtains p3 where
    "pickGround K cs roots p2 =
       Some ((case List.find (\<lambda>c. ctype c = ''battery'') cs of
                None \<Rightarrow> roots ! 0
              | Some battery \<Rightarrow> repOf p2 (K (getTermKey (cid battery) 0))), p3)"
    and "forest p3" and "repOf p3 = repOf p2"
proof (cases "List.find (\<lambda>c. ctype c = ''battery'') cs")
  case None
  with assms that[of p2] show thesis by (simp add: pickGround_def)
next
  case (Some battery)
  obtain p3 where "find_uf p2 (K (getTermKey (cid battery) 0)) =
      Some (repOf p2 (K (getTermKey (cid battery) 0)), p3)" and "forest p3" and "repOf p3 = repOf p2"
    using find_uf_forest[OF assms] by blast
  with Some that[of p3] show thesis by (simp add: pickGround_def)
qed

lemma termKeys_member:
  assumes "c \<in> set cs" and "t \<in> set (map tid (terminals c))"
  shows "getTermKey (cid c) t \<in> set (termKeys cs)"
  using assms unfolding termKeys_def by auto

lemma assignIndices_fold:
  "foldl (\<lambda>(rootToMatrixIdx, matrixSize) r.
              if r = g then (rootToMatrixIdx(r \<mapsto> - 1), matrixSize)
              else (rootToMatrixIdx(r \<mapsto> int matrixSize), Suc matrixSize)) (m, n) roots = (m', n')
   \<Longrightarrow> n' = n + length (filter (\<lambda>r. r \<noteq> g) roots) \<and> dom m' = dom m \<union> set roots"
proof (induction roots arbitrary: m n)
  case Nil
  then show ?case by simp
next
  case (Cons r roots)
  let ?f = "\<lambda>(rootToMatrixIdx, matrixSize) r.
              if r = g then (rootToMatrixIdx(r \<mapsto> - 1), matrixSize)
              else (rootToMatrixIdx(r \<mapsto> int matrixSize), Suc matrixSize)"
  show ?case
  proof (cases "r = g")
    case True
    with Cons.prems have "foldl ?f (m(r \<mapsto> - 1), n) roots = (m', n')" by simp
    from Cons.IH[OF this] True show ?thesis by auto
  next
    case False
    with Cons.prems have "foldl ?f (m(r \<mapsto> int n), Suc n) roots = (m', n')" by simp
    from Cons.IH[OF this] False show ?thesis by auto
  qed
qed

lemma assignIndices_facts:
  assumes "assignIndices g roots = (R, ms)"
  shows "ms = length (filter (\<lambda>r. r \<noteq> g) roots)" and "dom R = set roots"
  using assignIndices_fold[OF assms[unfolded assignIndices_def]] by simp_all

lemma length_filter_neq:
  assumes "distinct roots" and "g \<in> set roots"
  shows "length (filter (\<lambda>r. r \<noteq> g) roots) = length roots - 1"
proof -
  have "length (filter (\<lambda>r. r = g) roots) = card ({r. r = g} \<inter> set roots)"
    using assms(1) by (rule distinct_length_filter)
  also have "{r. r = g} \<inter> set roots = {g}" using assms(2) by auto
  finally have "length (filter (\<lambda>r. r = g) roots) = 1" by simp
  with sum_length_filter_compl[of "\<lambda>r. r = g" roots] show ?thesis by simp
qed

text \<open>Same root, same class of the wires: the sets of two terminals have one root if and
  only if wires lead from one terminal to the other.\<close>

lemma idParent_key:
  assumes "keysOk n K" and "k \<in> dom K"
  shows "idParent n (K k) = K k" and "idParent n z = K k \<Longrightarrow> z = K k"
proof -
  from assms(2) obtain v where kv: "K k = Some v" by blast
  with assms(1) have "v < n" unfolding keysOk_def by blast
  with kv have v: "K k = Some v" "v < n" by simp_all
  then show "idParent n (K k) = K k" by (simp add: idParent_def)
  assume "idParent n z = K k"
  with v show "z = K k" by (auto simp add: idParent_def split: option.splits if_splits)
qed

lemma sameSet_to_keys:
  assumes ok: "keysOk n K" and dom: "dom K = T" and w: "W \<subseteq> T \<times> T"
    and E: "E = (\<lambda>(a, b). (K a, K b)) ` W" and k1: "k1 \<in> T"
    and path: "(K k1, y) \<in> (sameSet (idParent n) \<union> E \<union> E\<inverse>)\<^sup>*"
  shows "\<exists>k \<in> T. y = K k \<and> (k1, k) \<in> (W \<union> W\<inverse>)\<^sup>*"
  using path
proof (induction rule: rtrancl_induct)
  case base
  with k1 show ?case by blast
next
  case (step y z)
  from step.IH obtain k where k: "k \<in> T" and y: "y = K k" and c: "(k1, k) \<in> (W \<union> W\<inverse>)\<^sup>*"
    by blast
  from ok have inj: "inj_on K (dom K)" by (simp add: keysOk_def)
  from step.hyps(2) consider "(y, z) \<in> sameSet (idParent n)" | "(y, z) \<in> E" | "(z, y) \<in> E"
    by auto
  then show ?case
  proof cases
    case 1
    then have "idParent n z = idParent n (K k)"
      unfolding y by (simp add: sameSet_def idParent_repOf)
    moreover from k dom have kd: "k \<in> dom K" by simp
    ultimately have "idParent n z = K k" using idParent_key(1)[OF ok kd] by simp
    then have "z = K k" by (rule idParent_key(2)[OF ok kd])
    with k c show ?thesis by blast
  next
    case 2
    with E obtain a b where ab: "(a, b) \<in> W" and ya: "y = K a" and zb: "z = K b" by auto
    from ab w have a: "a \<in> T" and b: "b \<in> T" by auto
    from ya y have "K a = K k" by simp
    with a k dom have "a = k" using inj_onD[OF inj, of a k] by simp
    with ab have "(k, b) \<in> W \<union> W\<inverse>" by simp
    with c have "(k1, b) \<in> (W \<union> W\<inverse>)\<^sup>*" by (rule rtrancl.rtrancl_into_rtrancl)
    with b zb show ?thesis by blast
  next
    case 3
    with E obtain a b where ab: "(a, b) \<in> W" and za: "z = K a" and yb: "y = K b" by auto
    from ab w have a: "a \<in> T" and b: "b \<in> T" by auto
    from yb y have "K b = K k" by simp
    with b k dom have "b = k" using inj_onD[OF inj, of b k] by simp
    with ab have "(k, a) \<in> W \<union> W\<inverse>" by simp
    with c have "(k1, a) \<in> (W \<union> W\<inverse>)\<^sup>*" by (rule rtrancl.rtrancl_into_rtrancl)
    with a za show ?thesis by blast
  qed
qed

lemma keys_to_sameSet:
  assumes E: "E = (\<lambda>(a, b). (K a, K b)) ` W"
    and path: "(k1, k2) \<in> (W \<union> W\<inverse>)\<^sup>*"
  shows "(K k1, K k2) \<in> (S \<union> E \<union> E\<inverse>)\<^sup>*"
  using path
proof (induction rule: rtrancl_induct)
  case base
  show ?case by simp
next
  case (step y z)
  from step.hyps(2) have "(y, z) \<in> W \<or> (z, y) \<in> W" by simp
  then have "(K y, K z) \<in> E \<or> (K z, K y) \<in> E"
  proof
    assume "(y, z) \<in> W"
    then have "(\<lambda>(a, b). (K a, K b)) (y, z) \<in> E" unfolding E by (rule imageI)
    then show ?thesis by simp
  next
    assume "(z, y) \<in> W"
    then have "(\<lambda>(a, b). (K a, K b)) (z, y) \<in> E" unfolding E by (rule imageI)
    then show ?thesis by simp
  qed
  then have "(K y, K z) \<in> S \<union> E \<union> E\<inverse>" by auto
  with step.IH show ?case by (rule rtrancl.rtrancl_into_rtrancl)
qed

lemma wireElems_wireKeys: "wireElems K (wires app) = (\<lambda>(a, b). (K a, K b)) ` wireKeys app"
  by (auto simp add: wireElems_def wireKeys_def image_iff)

lemma same_root_iff:
  assumes ok: "keysOk n K" and dom: "dom K = T" and w: "wireKeys app \<subseteq> T \<times> T"
    and s: "sameSet p = (sameSet (idParent n) \<union> wireElems K (wires app) \<union>
              (wireElems K (wires app))\<inverse>)\<^sup>*"
    and k1: "k1 \<in> T" and k2: "k2 \<in> T"
  shows "repOf p (K k1) = repOf p (K k2) \<longleftrightarrow> (k1, k2) \<in> sameNode app"
proof
  assume "repOf p (K k1) = repOf p (K k2)"
  then have "(K k1, K k2) \<in> sameSet p" by (simp add: sameSet_def)
  with sameSet_to_keys[OF ok dom w wireElems_wireKeys k1, of "K k2"] s
  obtain k where k: "k \<in> T" and e: "K k2 = K k" and c: "(k1, k) \<in> sameNode app"
    unfolding sameNode_def by auto
  from ok have inj: "inj_on K (dom K)" by (simp add: keysOk_def)
  from e k k2 dom have "k2 = k" using inj_onD[OF inj, of k2 k] by simp
  with c show "(k1, k2) \<in> sameNode app" by simp
next
  assume "(k1, k2) \<in> sameNode app"
  then have "(K k1, K k2) \<in> sameSet p"
    unfolding sameNode_def s by (rule keys_to_sameSet[OF wireElems_wireKeys])
  then show "repOf p (K k1) = repOf p (K k2)" by (simp add: sameSet_def)
qed

lemma sameNode_equiv: "equiv UNIV (sameNode app)"
proof (rule equivI)
  show "sameNode app \<subseteq> UNIV \<times> UNIV" by simp
  show "refl (sameNode app)" unfolding sameNode_def by (rule refl_rtrancl)
  have "sym (wireKeys app \<union> (wireKeys app)\<inverse>)" by (rule sym_Un_converse)
  then show "sym (sameNode app)" unfolding sameNode_def by (rule sym_rtrancl)
  show "trans (sameNode app)" unfolding sameNode_def by (rule trans_rtrancl)
qed

lemma card_image_kernel:
  assumes "finite A" and "\<And>x y. x \<in> A \<Longrightarrow> y \<in> A \<Longrightarrow> f x = f y \<longleftrightarrow> g x = g y"
  shows "card (f ` A) = card (g ` A)"
  using assms
proof (induction rule: finite_induct)
  case empty
  then show ?case by simp
next
  case (insert a A)
  have ih: "card (f ` A) = card (g ` A)"
  proof (rule insert.IH)
    fix x y assume "x \<in> A" "y \<in> A"
    then have "x \<in> insert a A" "y \<in> insert a A" by simp_all
    then show "f x = f y \<longleftrightarrow> g x = g y" by (rule insert.prems)
  qed
  have "f a \<in> f ` A \<longleftrightarrow> g a \<in> g ` A"
  proof
    assume "f a \<in> f ` A"
    then obtain y where y: "y \<in> A" "f a = f y" by auto
    then have "g a = g y" using insert.prems[of a y] by simp
    with y show "g a \<in> g ` A" by (simp add: image_iff) blast
  next
    assume "g a \<in> g ` A"
    then obtain y where y: "y \<in> A" "g a = g y" by auto
    then have "f a = f y" using insert.prems[of a y] by simp
    with y show "f a \<in> f ` A" by (simp add: image_iff) blast
  qed
  then show ?case
  proof (cases "f a \<in> f ` A")
    case True
    assume "f a \<in> f ` A \<longleftrightarrow> g a \<in> g ` A"
    with True have "g a \<in> g ` A" by simp
    with True have "f ` insert a A = f ` A" "g ` insert a A = g ` A" by auto
    with ih show ?thesis by simp
  next
    case False
    assume "f a \<in> f ` A \<longleftrightarrow> g a \<in> g ` A"
    with False have n: "g a \<notin> g ` A" by simp
    from insert.hyps(1) have "finite (f ` A)" "finite (g ` A)" by simp_all
    with False n have "card (insert (f a) (f ` A)) = Suc (card (f ` A))"
      "card (insert (g a) (g ` A)) = Suc (card (g ` A))" by simp_all
    with ih show ?thesis by simp
  qed
qed

lemma card_nodeClasses:
  assumes ok: "keysOk n K" and dom: "dom K = set (termKeys (components app))"
    and w: "wireKeys app \<subseteq> set (termKeys (components app)) \<times> set (termKeys (components app))"
    and s: "sameSet p = (sameSet (idParent n) \<union> wireElems K (wires app) \<union>
              (wireElems K (wires app))\<inverse>)\<^sup>*"
  shows "length (foldl setAdd [] (map (\<lambda>k. repOf p (K k)) (termKeys (components app)))) =
         card (nodeClasses app)"
proof -
  let ?T = "set (termKeys (components app))"
  let ?roots = "foldl setAdd [] (map (\<lambda>k. repOf p (K k)) (termKeys (components app)))"
  have "distinct ?roots" by (rule distinct_foldl_setAdd) simp
  then have "length ?roots = card (set ?roots)" by (simp add: distinct_card)
  also have "set ?roots = (\<lambda>k. repOf p (K k)) ` ?T" by (simp add: set_foldl_setAdd)
  also have "card ((\<lambda>k. repOf p (K k)) ` ?T) = card ((\<lambda>k. sameNode app `` {k}) ` ?T)"
  proof (rule card_image_kernel)
    show "finite ?T" by simp
    fix x y assume "x \<in> ?T" "y \<in> ?T"
    then show "repOf p (K x) = repOf p (K y) \<longleftrightarrow> sameNode app `` {x} = sameNode app `` {y}"
      using same_root_iff[OF ok dom w s, of x y] eq_equiv_class_iff[OF sameNode_equiv, of x y app]
      by simp
  qed
  also have "(\<lambda>k. sameNode app `` {k}) ` ?T = nodeClasses app"
    by (auto simp add: nodeClasses_def quotient_def)
  finally show ?thesis .
qed












lemma wellFormed_wires:
  assumes "wellFormed app"
  shows "wireKeys app \<subseteq> set (termKeys (components app)) \<times> set (termKeys (components app))"
  using assms unfolding wellFormed_def wireKeys_def by auto

lemma ground_in_roots:
  assumes wf: "wellFormed app" and ne: "roots \<noteq> []"
    and r: "roots = foldl setAdd [] (map (\<lambda>k. repOf p2 (K k)) (termKeys (components app)))"
  shows "(case List.find (\<lambda>c. ctype c = ''battery'') (components app) of
            None \<Rightarrow> roots ! 0
          | Some battery \<Rightarrow> repOf p2 (K (getTermKey (cid battery) 0))) \<in> set roots"
proof (cases "List.find (\<lambda>c. ctype c = ''battery'') (components app)")
  case None
  with ne show ?thesis by simp
next
  case (Some battery)
  then have "battery \<in> set (components app)"
    unfolding find_Some_iff by auto
  moreover with wf have "map tid (terminals battery) = [0, 1]" by (simp add: wellFormed_def)
  ultimately have "getTermKey (cid battery) 0 \<in> set (termKeys (components app))"
    by (intro termKeys_member) simp_all
  then have "repOf p2 (K (getTermKey (cid battery) 0)) \<in> set roots"
    unfolding r by (simp add: set_foldl_setAdd)
  with Some show ?thesis by simp
qed

text \<open>A call on a well-formed graph returns.\<close>

lemma nodeOf_facts:
  assumes "forest p"
  obtains p' where "nodeOf K R p c t = Some (R (repOf p (K (getTermKey (cid c) t))), p')"
    and "forest p'" and "repOf p' = repOf p"
proof -
  obtain p' where "find_uf p (K (getTermKey (cid c) t)) =
      Some (repOf p (K (getTermKey (cid c) t)), p')" and "forest p'" and "repOf p' = repOf p"
    using find_uf_forest[OF assms] by blast
  with that[of p'] show thesis by (simp add: nodeOf_def)
qed

lemma stampComponent_Some:
  "\<exists>Ab'. stampComponent ms vs pos c (Some i1) (Some i2) Ab = Some Ab'"
  by (cases Ab) (simp add: stampComponent_def stampBattery_def addG_def Let_def)

lemma assemble_total:
  assumes "forest p"
    and "\<forall>pc \<in> set pcs. R (repOf p (K (getTermKey (cid (snd pc)) 0))) \<noteq> None \<and>
                          R (repOf p (K (getTermKey (cid (snd pc)) 1))) \<noteq> None"
  shows "\<exists>p' Ab'. assemble K R ms vs pcs (p, Ab) = Some (p', Ab') \<and> forest p'"
  using assms
proof (induction pcs arbitrary: p Ab)
  case Nil
  then show ?case by simp
next
  case (Cons pc pcs)
  obtain pos c where pc: "pc = (pos, c)" by (cases pc)
  show ?case
  proof (cases "burnt (state c)")
    case True
    with Cons.IH[OF Cons.prems(1), of Ab] Cons.prems(2) show ?thesis unfolding pc by simp
  next
    case False
    obtain p1 where n1: "nodeOf K R p c 0 = Some (R (repOf p (K (getTermKey (cid c) 0))), p1)"
      and t1: "forest p1" and r1: "repOf p1 = repOf p"
      using nodeOf_facts[OF Cons.prems(1)] by blast
    obtain p2 where n2: "nodeOf K R p1 c 1 = Some (R (repOf p1 (K (getTermKey (cid c) 1))), p2)"
      and t2: "forest p2" and r2: "repOf p2 = repOf p1"
      using nodeOf_facts[OF t1] by blast
    from Cons.prems(2) obtain i1 i2 where
      i1: "R (repOf p (K (getTermKey (cid c) 0))) = Some i1"
      and i2: "R (repOf p (K (getTermKey (cid c) 1))) = Some i2"
      unfolding pc by auto
    obtain Ab' where s: "stampComponent ms vs pos c (Some i1) (Some i2) Ab = Some Ab'"
      using stampComponent_Some by blast
    have "\<forall>pc \<in> set pcs. R (repOf p2 (K (getTermKey (cid (snd pc)) 0))) \<noteq> None \<and>
                          R (repOf p2 (K (getTermKey (cid (snd pc)) 1))) \<noteq> None"
      using Cons.prems(2) unfolding r2 r1 by simp
    from Cons.IH[OF t2 this, of Ab'] False n1 n2 i1 i2 s show ?thesis
      unfolding pc by (simp add: r1)
  qed
qed

lemma updateStates_total:
  assumes "forest p"
  shows "\<exists>cs'. updateStates K R x ms vs pcs p = Some cs'"
  using assms
proof (induction pcs arbitrary: p)
  case Nil
  then show ?case by simp
next
  case (Cons pc pcs)
  obtain pos c where pc: "pc = (pos, c)" by (cases pc)
  show ?case
  proof (cases "burnt (state c)")
    case True
    with Cons.IH[OF Cons.prems] show ?thesis unfolding pc by auto
  next
    case False
    obtain p1 where n1: "nodeOf K R p c 0 = Some (R (repOf p (K (getTermKey (cid c) 0))), p1)"
      and t1: "forest p1"
      using nodeOf_facts[OF Cons.prems] by blast
    obtain p2 where n2: "nodeOf K R p1 c 1 = Some (R (repOf p1 (K (getTermKey (cid c) 1))), p2)"
      and t2: "forest p2"
      using nodeOf_facts[OF t1] by blast
    from Cons.IH[OF t2] False n1 n2 show ?thesis unfolding pc by auto
  qed
qed

lemma solveCircuit_returns:
  assumes "wellFormed app"
  shows "\<exists>app'. solveCircuit app = Some app'"
proof -
  let ?cs = "components app" and ?ks = "termKeys (components app)"
  obtain K p2 where n: "nodes app = Some (K, p2, foldl setAdd [] (map (\<lambda>k. repOf p2 (K k)) ?ks))"
    and "dom K = set ?ks" and "keysOk (length ?ks) K" and t2: "forest p2"
    and "sameSet p2 = (sameSet (idParent (length ?ks)) \<union>
           wireElems K (wires app) \<union> (wireElems K (wires app))\<inverse>)\<^sup>*"
    by (rule nodes_facts)
  let ?roots = "foldl setAdd [] (map (\<lambda>k. repOf p2 (K k)) ?ks)"
  show ?thesis
  proof (cases "?roots = []")
    case True
    with n show ?thesis by (simp add: solveCircuit_def)
  next
    case False
    obtain p3 where "pickGround K ?cs ?roots p2 =
       Some ((case List.find (\<lambda>c. ctype c = ''battery'') ?cs of
                None \<Rightarrow> ?roots ! 0
              | Some battery \<Rightarrow> repOf p2 (K (getTermKey (cid battery) 0))), p3)"
      and t3: "forest p3" and r3: "repOf p3 = repOf p2"
      by (rule pickGround_facts[OF t2])
    then obtain g where pg: "pickGround K ?cs ?roots p2 = Some (g, p3)" by simp
    obtain R ms where ai: "assignIndices g ?roots = (R, ms)" by (cases "assignIndices g ?roots")
    show ?thesis
    proof (cases "ms = 0")
      case True
      with n False pg ai show ?thesis by (simp add: solveCircuit_def)
    next
      case nz: False
      have def: "\<forall>pc \<in> set (enumerate 0 ?cs).
          R (repOf p3 (K (getTermKey (cid (snd pc)) 0))) \<noteq> None \<and>
          R (repOf p3 (K (getTermKey (cid (snd pc)) 1))) \<noteq> None"
      proof
        fix pc assume "pc \<in> set (enumerate 0 ?cs)"
        then have "fst pc < length ?cs" "?cs ! fst pc = snd pc"
          by (simp_all add: in_set_enumerate_eq)
        then have c: "snd pc \<in> set ?cs" using nth_mem by metis
        with assms have "map tid (terminals (snd pc)) = [0, 1]" by (simp add: wellFormed_def)
        with c have "getTermKey (cid (snd pc)) 0 \<in> set ?ks" "getTermKey (cid (snd pc)) 1 \<in> set ?ks"
          by (simp_all add: termKeys_member)
        then have "repOf p2 (K (getTermKey (cid (snd pc)) 0)) \<in> set ?roots"
          "repOf p2 (K (getTermKey (cid (snd pc)) 1)) \<in> set ?roots"
          by (simp_all add: set_foldl_setAdd)
        then show "R (repOf p3 (K (getTermKey (cid (snd pc)) 0))) \<noteq> None \<and>
          R (repOf p3 (K (getTermKey (cid (snd pc)) 1))) \<noteq> None"
          unfolding r3 assignIndices_facts(2)[OF ai, symmetric] by auto
      qed
      let ?n = "ms + length (voltageSources ?cs)"
      from assemble_total[OF t3 def, of ms "voltageSources ?cs"
          "(newMatrix ?n ?n, replicate ?n (Fin 0))"]
      obtain p4 A b where a: "assemble K R ms (voltageSources ?cs) (enumerate 0 ?cs)
          (p3, newMatrix ?n ?n, replicate ?n (Fin 0)) = Some (p4, A, b)" and t4: "forest p4"
        by auto
      then have bs: "buildSystem K R ms ?cs p3 = Some (p4, addLeakage ms A, b)"
        by (simp add: buildSystem_def)
      from updateStates_total[OF t4] obtain cs' where
        "updateStates K R (solve (addLeakage ms A) b) ms (voltageSources ?cs)
           (enumerate 0 ?cs) p4 = Some cs'" by blast
      with n False pg ai nz bs show ?thesis by (simp add: solveCircuit_def)
    qed
  qed
qed

section \<open>The series circuit\<close>

text \<open>
  Claim C1. The battery of 9 V and 1.5 Ohm in a loop with the resistor of 100 Ohm should carry
  9 / 101.5 A, about 0.08867 A, with 0.7859 W in the resistor and 0.01178 W in the battery.
  The solver instead returns a current of magnitude 180000000 / 1969999997, about 0.09137 A,
  in the resistor, with 0.8349 W there and 0.01252 W in the battery: the source row adds the
  drop over the internal resistance where it should subtract it, so the computed terminal
  voltage, 9.137 V, is above the source voltage. The difference to 9 / 101.5 is more than
  0.0025 A.
\<close>

theorem series_circuit_solution:
  "map_option (\<lambda>a. map (\<lambda>c. (current (state c), powerW (state c))) (components a))
     (solveCircuit seriesCircuit) =
   Some [(Fin (- (180000018 / 1969999997)), Fin (48600009720000486 / 3880899988180000009)),
         (Fin (180000000 / 1969999997), Fin (3240000000000000000 / 3880899988180000009))]
   \<and> (9 / (1015 / 10) + 1 / 400 < (180000000 / 1969999997 :: real))"
  by code_simp


section \<open>One step of the assembly and of the update\<close>

lemma nodeOf_keys1:
  "cid c = ''r'' \<Longrightarrow> nodeOf keys1 index1 parent1 c 0 = Some (Some (- 1), parent1)"
  "cid c = ''r'' \<Longrightarrow> nodeOf keys1 index1 parent1 c 1 = Some (Some 0, parent1)"
  by (simp_all add: nodeOf_def find_uf.simps keys1_def index1_def parent1_def getTermKey_def)

text \<open>
  Claim C2, as the code has it. A non-burnt closed switch is stamped with the conductance
  1 / 0.01, and the update divides its voltage by the same constant 0.01; the property
  \<open>resistance\<close> of the switch is not read. Here \<open>n1\<close> and \<open>n2\<close> are the matrix indices of the
  two terminals of the switch.
\<close>

theorem closed_switch_resistance:
  assumes "ctype c = ''switch''" and "closedSw (properties c)" and "\<not> burnt (state c)"
    and "nodeOf K R parent c 0 = Some (n1, p1)" and "nodeOf K R p1 c 1 = Some (n2, p2)"
  shows "assemble K R ms vs ((pos, c) # pcs) (parent, A, b) =
           Option.bind (addG n1 n2 (jdiv (Fin 1) (Fin (1 / 100))) A)
             (\<lambda>A'. assemble K R ms vs pcs (p2, A', b)) \<and>
         updateStates K R x ms vs ((pos, c) # pcs) parent =
           map_option (\<lambda>cs'. updateComponent x ms vs pos n1 n2 c # cs')
             (updateStates K R x ms vs pcs p2) \<and>
         current (state (updateComponent x ms vs pos n1 n2 c)) =
           jdiv (jsub (getNodeV x n2) (getNodeV x n1)) (Fin (1 / 100))"
  using assms
  by (cases "addG n1 n2 (Fin 100) A") (simp_all add: stampComponent_def updateComponent_def Let_def)

theorem closed_switch_resistance_witness:
  "ctype closedSwitch5 = ''switch'' \<and> closedSw (properties closedSwitch5) \<and>
   \<not> burnt (state closedSwitch5) \<and>
   nodeOf keys1 index1 parent1 closedSwitch5 0 = Some (Some (- 1), parent1) \<and>
   nodeOf keys1 index1 parent1 closedSwitch5 1 = Some (Some 0, parent1) \<and>
   (assemble keys1 index1 1 [] ((0, closedSwitch5) # []) (parent1, newMatrix 1 1, [Fin 0]) =
      Option.bind (addG (Some (- 1)) (Some 0) (jdiv (Fin 1) (Fin (1 / 100))) (newMatrix 1 1))
        (\<lambda>A'. assemble keys1 index1 1 [] [] (parent1, A', [Fin 0])) \<and>
    updateStates keys1 index1 [Fin 1] 1 [] ((0, closedSwitch5) # []) parent1 =
      map_option (\<lambda>cs'. updateComponent [Fin 1] 1 [] 0 (Some (- 1)) (Some 0) closedSwitch5 # cs')
        (updateStates keys1 index1 [Fin 1] 1 [] [] parent1) \<and>
    current (state (updateComponent [Fin 1] 1 [] 0 (Some (- 1)) (Some 0) closedSwitch5)) =
      jdiv (jsub (getNodeV [Fin 1] (Some 0)) (getNodeV [Fin 1] (Some (- 1)))) (Fin (1 / 100)))"
proof -
  have h1: "ctype closedSwitch5 = ''switch''"
    and h2: "closedSw (properties closedSwitch5)"
    and h3: "\<not> burnt (state closedSwitch5)"
    and i: "cid closedSwitch5 = ''r''"
    by (simp_all add: closedSwitch5_def newComponent_def)
  note h4 = nodeOf_keys1(1)[OF i] and h5 = nodeOf_keys1(2)[OF i]
  note c = closed_switch_resistance[OF h1 h2 h3 h4 h5]
  show ?thesis using h1 h2 h3 h4 h5 c by blast
qed

text \<open>
  Claim C2 as stated fails: for the closed switch whose property \<open>resistance\<close> is 5, in a
  loop with the battery, the cell of its node holds the conductance 100 (and the leakage),
  not 1 / 5, and its current after the solve is its voltage drop divided by 0.01.
\<close>

theorem switch_conductance_counterexample:
  "ctype closedSwitch5 = ''switch'' \<and> \<not> burnt (state closedSwitch5) \<and>
   closedSw (properties closedSwitch5) \<and> resistance (properties closedSwitch5) = Fin 5 \<and>
   map_option (\<lambda>(A, b). data A ! 0 ! 0) (systemOf switchCircuit) = Some (Fin (100 + 1 / 10 ^ 9)) \<and>
   map_option (\<lambda>a. (voltageDrop (state (components a ! 1)), current (state (components a ! 1))))
     (solveCircuit switchCircuit) =
   Some (Fin (- (18000000000 / 298000000003)), Fin (- (1800000000000 / 298000000003)))"
  by code_simp

text \<open>
  Claim C3. A non-burnt diode is stamped with the conductance of the forward resistance 0.1
  if the voltage drop that its state holds when the call starts, left there by the previous
  solve, is strictly above its \<open>forwardVoltage\<close>, and of the reverse resistance 10^7
  otherwise.
\<close>

theorem diode_resistance:
  assumes "ctype c = ''diode''" and "\<not> burnt (state c)"
    and "nodeOf K R parent c 0 = Some (n1, p1)" and "nodeOf K R p1 c 1 = Some (n2, p2)"
  shows "assemble K R ms vs ((pos, c) # pcs) (parent, A, b) =
           Option.bind
             (addG n1 n2
                (jdiv (Fin 1)
                   (if jgt (voltageDrop (state c)) (forwardVoltage (properties c))
                    then Fin (1 / 10) else Fin (10 ^ 7))) A)
             (\<lambda>A'. assemble K R ms vs pcs (p2, A', b))"
  using assms
  by (cases "addG n1 n2 (jdiv (Fin 1)
                (if jgt (voltageDrop (state c)) (forwardVoltage (properties c))
                 then Fin (1 / 10) else Fin (10 ^ 7))) A")
     (simp_all add: stampComponent_def Let_def)

theorem diode_resistance_witness:
  "ctype conductingDiode = ''diode'' \<and> \<not> burnt (state conductingDiode) \<and>
   nodeOf keys1 index1 parent1 conductingDiode 0 = Some (Some (- 1), parent1) \<and>
   nodeOf keys1 index1 parent1 conductingDiode 1 = Some (Some 0, parent1) \<and>
   assemble keys1 index1 1 [] ((0, conductingDiode) # []) (parent1, newMatrix 1 1, [Fin 0]) =
     Option.bind
       (addG (Some (- 1)) (Some 0)
          (jdiv (Fin 1)
             (if jgt (voltageDrop (state conductingDiode))
                     (forwardVoltage (properties conductingDiode))
              then Fin (1 / 10) else Fin (10 ^ 7))) (newMatrix 1 1))
       (\<lambda>A'. assemble keys1 index1 1 [] [] (parent1, A', [Fin 0]))"
proof -
  have h1: "ctype conductingDiode = ''diode''"
    and h2: "\<not> burnt (state conductingDiode)"
    and i: "cid conductingDiode = ''r''"
    by (simp_all add: conductingDiode_def newComponent_def)
  note h3 = nodeOf_keys1(1)[OF i] and h4 = nodeOf_keys1(2)[OF i]
  note c = diode_resistance[OF h1 h2 h3 h4]
  show ?thesis using h1 h2 h3 h4 c by blast
qed

text \<open>
  Claim C8, as the code has it. For a non-burnt switch or diode, and for a non-burnt
  resistor, light or fan whose resistance is greater than 0, the resistance \<open>Rv\<close> by which the
  update divides the voltage \<open>V\<close> is the resistance whose conductance the assembly stamps: for
  the switch the constant of its position, for the diode the forward or reverse value by the
  voltage drop that the state held before the update, in both places, and the property
  \<open>resistance\<close> otherwise. For a non-burnt resistor, light or fan whose resistance is not
  greater than 0 the assembly stamps nothing, and the update divides by the property
  \<open>resistance\<close> all the same.
\<close>

theorem update_divides_by_stamped_resistance:
  assumes "ctype c = ''resistor'' \<or> ctype c = ''light'' \<or> ctype c = ''fan'' \<or>
           ctype c = ''switch'' \<or> ctype c = ''diode''"
    and "\<not> burnt (state c)"
    and "nodeOf K R parent c 0 = Some (n1, p1)" and "nodeOf K R p1 c 1 = Some (n2, p2)"
    and "Rv = (if ctype c = ''switch''
               then (if closedSw (properties c) then Fin (1 / 100) else Fin (10 ^ 9))
               else if ctype c = ''diode''
               then (if jgt (voltageDrop (state c)) (forwardVoltage (properties c))
                     then Fin (1 / 10) else Fin (10 ^ 7))
               else resistance (properties c))"
    and "V = jsub (getNodeV x n2) (getNodeV x n1)"
  shows "assemble K R ms vs ((pos, c) # pcs) (parent, A, b) =
           (if (ctype c = ''resistor'' \<or> ctype c = ''light'' \<or> ctype c = ''fan'') \<and>
               \<not> jgt Rv (Fin 0)
            then assemble K R ms vs pcs (p2, A, b)
            else Option.bind (addG n1 n2 (jdiv (Fin 1) Rv) A)
                   (\<lambda>A'. assemble K R ms vs pcs (p2, A', b))) \<and>
         updateStates K R x ms vs ((pos, c) # pcs) parent =
           map_option (\<lambda>cs'. updateComponent x ms vs pos n1 n2 c # cs')
             (updateStates K R x ms vs pcs p2) \<and>
         current (state (updateComponent x ms vs pos n1 n2 c)) = jdiv V Rv \<and>
         voltageDrop (state (updateComponent x ms vs pos n1 n2 c)) = V \<and>
         powerW (state (updateComponent x ms vs pos n1 n2 c)) =
           jmul (jmul (jdiv V Rv) (jdiv V Rv)) Rv"
proof -
  have a: "assemble K R ms vs ((pos, c) # pcs) (parent, A, b) =
           (if (ctype c = ''resistor'' \<or> ctype c = ''light'' \<or> ctype c = ''fan'') \<and>
               \<not> jgt Rv (Fin 0)
            then assemble K R ms vs pcs (p2, A, b)
            else Option.bind (addG n1 n2 (jdiv (Fin 1) Rv) A)
                   (\<lambda>A'. assemble K R ms vs pcs (p2, A', b)))"
    using assms
    by (cases "addG n1 n2 (jdiv (Fin 1) Rv) A") (auto simp add: stampComponent_def Let_def)
  have u: "updateStates K R x ms vs ((pos, c) # pcs) parent =
           map_option (\<lambda>cs'. updateComponent x ms vs pos n1 n2 c # cs')
             (updateStates K R x ms vs pcs p2)"
    using assms by simp
  have s: "current (state (updateComponent x ms vs pos n1 n2 c)) = jdiv V Rv \<and>
         voltageDrop (state (updateComponent x ms vs pos n1 n2 c)) = V \<and>
         powerW (state (updateComponent x ms vs pos n1 n2 c)) =
           jmul (jmul (jdiv V Rv) (jdiv V Rv)) Rv"
    using assms by (auto simp add: updateComponent_def Let_def)
  show ?thesis using a u s by blast
qed

theorem update_divides_by_stamped_resistance_witness:
  "(ctype conductingDiode = ''resistor'' \<or> ctype conductingDiode = ''light'' \<or>
    ctype conductingDiode = ''fan'' \<or> ctype conductingDiode = ''switch'' \<or>
    ctype conductingDiode = ''diode'') \<and>
   \<not> burnt (state conductingDiode) \<and>
   nodeOf keys1 index1 parent1 conductingDiode 0 = Some (Some (- 1), parent1) \<and>
   nodeOf keys1 index1 parent1 conductingDiode 1 = Some (Some 0, parent1) \<and>
   (assemble keys1 index1 1 [] ((0, conductingDiode) # []) (parent1, newMatrix 1 1, [Fin 0]) =
      (if (ctype conductingDiode = ''resistor'' \<or> ctype conductingDiode = ''light'' \<or>
           ctype conductingDiode = ''fan'') \<and> \<not> jgt (Fin (1 / 10)) (Fin 0)
       then assemble keys1 index1 1 [] [] (parent1, newMatrix 1 1, [Fin 0])
       else Option.bind (addG (Some (- 1)) (Some 0) (jdiv (Fin 1) (Fin (1 / 10))) (newMatrix 1 1))
              (\<lambda>A'. assemble keys1 index1 1 [] [] (parent1, A', [Fin 0]))) \<and>
    updateStates keys1 index1 [Fin 2] 1 [] ((0, conductingDiode) # []) parent1 =
      map_option (\<lambda>cs'. updateComponent [Fin 2] 1 [] 0 (Some (- 1)) (Some 0) conductingDiode # cs')
        (updateStates keys1 index1 [Fin 2] 1 [] [] parent1) \<and>
    current (state (updateComponent [Fin 2] 1 [] 0 (Some (- 1)) (Some 0) conductingDiode)) =
      jdiv (Fin 2) (Fin (1 / 10)) \<and>
    voltageDrop (state (updateComponent [Fin 2] 1 [] 0 (Some (- 1)) (Some 0) conductingDiode)) =
      Fin 2 \<and>
    powerW (state (updateComponent [Fin 2] 1 [] 0 (Some (- 1)) (Some 0) conductingDiode)) =
      jmul (jmul (jdiv (Fin 2) (Fin (1 / 10))) (jdiv (Fin 2) (Fin (1 / 10)))) (Fin (1 / 10)))"
proof -
  have h1: "ctype conductingDiode = ''resistor'' \<or> ctype conductingDiode = ''light'' \<or>
    ctype conductingDiode = ''fan'' \<or> ctype conductingDiode = ''switch'' \<or>
    ctype conductingDiode = ''diode''"
    and h2: "\<not> burnt (state conductingDiode)"
    and i: "cid conductingDiode = ''r''"
    by (simp_all add: conductingDiode_def newComponent_def)
  note h4 = nodeOf_keys1(1)[OF i] and h5 = nodeOf_keys1(2)[OF i]
  have h6: "Fin (1 / 10) =
      (if ctype conductingDiode = ''switch''
       then (if closedSw (properties conductingDiode) then Fin (1 / 100) else Fin (10 ^ 9))
       else if ctype conductingDiode = ''diode''
       then (if jgt (voltageDrop (state conductingDiode))
                    (forwardVoltage (properties conductingDiode))
             then Fin (1 / 10) else Fin (10 ^ 7))
       else resistance (properties conductingDiode))"
    by (simp add: conductingDiode_def newComponent_def DefaultProperties_def noProperties_def)
  have h7: "Fin 2 = jsub (getNodeV [Fin 2] (Some 0)) (getNodeV [Fin 2] (Some (- 1)))"
    by (simp add: getNodeV_def jsub_def)
  note c = update_divides_by_stamped_resistance[OF h1 h2 h4 h5 h6 h7]
  show ?thesis using h1 h2 h4 h5 c by blast
qed

text \<open>
  Claim C8 as stated fails: for the non-burnt resistor whose property \<open>resistance\<close> is -100,
  in a loop with the battery, the assembly uses no resistance at all (the system is the
  leakage and the battery's stamp alone; the conductance of -100 Ohm would make the first
  cell -1/100 + 10^-9), while the update divides the voltage drop of the resistor by -100.
\<close>

theorem update_resistance_counterexample:
  "ctype (components negativeOhmCircuit ! 1) = ''resistor'' \<and>
   \<not> burnt (state (components negativeOhmCircuit ! 1)) \<and>
   resistance (properties (components negativeOhmCircuit ! 1)) = Fin (- 100) \<and>
   map_option (\<lambda>(A, b). data A) (systemOf negativeOhmCircuit) =
     Some [[Fin (1 / 10 ^ 9), Fin 1], [Fin 1, Fin (3 / 2)]] \<and>
   map_option (\<lambda>a. (voltageDrop (state (components a ! 1)), current (state (components a ! 1))))
     (solveCircuit negativeOhmCircuit) =
     Some (Fin (18000000000 / 1999999997), Fin (- (180000000 / 1999999997)))"
  by code_simp

text \<open>
  Claim C9. There is an input, the battery in a loop with a non-burnt resistor of
  resistance 0, for which the assembly stamps no conductance of the resistor (the system is
  the leakage and the battery's stamp alone), while the update divides the voltage drop of
  the resistor by 0: its current is Infinity and its power NaN.
\<close>

theorem zero_resistance_division:
  "ctype (components zeroOhmCircuit ! 1) = ''resistor'' \<and>
   \<not> burnt (state (components zeroOhmCircuit ! 1)) \<and>
   resistance (properties (components zeroOhmCircuit ! 1)) = Fin 0 \<and>
   map_option (\<lambda>(A, b). data A) (systemOf zeroOhmCircuit) =
     Some [[Fin (1 / 10 ^ 9), Fin 1], [Fin 1, Fin (3 / 2)]] \<and>
   map_option (\<lambda>a. state (components a ! 1)) (solveCircuit zeroOhmCircuit) =
     Some \<lparr>voltageDrop = Fin (18000000000 / 1999999997), current = PInf, powerW = NaN,
           burnt = False, nodeIds = (NodeIdx (Some (- 1)), NodeIdx (Some 0)),
           animationOffset = Fin 0\<rparr> \<and>
   jdiv (Fin (18000000000 / 1999999997)) (Fin 0) = PInf"
  by code_simp

section \<open>What a call writes\<close>

lemma updateStates_shape:
  "updateStates K R x ms vs pcs parent = Some cs' \<Longrightarrow>
   list_all2 (\<lambda>pc c'. (burnt (state (snd pc)) \<and>
                          c' = (snd pc)\<lparr>state := (state (snd pc))\<lparr>current := Fin 0, powerW := Fin 0\<rparr>\<rparr>) \<or>
                       (\<not> burnt (state (snd pc)) \<and>
                          (\<exists>n1 n2. c' = updateComponent x ms vs (fst pc) n1 n2 (snd pc))))
     pcs cs'"
proof (induction pcs arbitrary: parent cs')
  case Nil
  then show ?case by simp
next
  case (Cons pc pcs)
  obtain pos c where pc: "pc = (pos, c)" by (cases pc)
  show ?case
  proof (cases "burnt (state c)")
    case True
    with Cons.prems pc obtain cs'' where
      "updateStates K R x ms vs pcs parent = Some cs''"
      "cs' = c\<lparr>state := (state c)\<lparr>current := Fin 0, powerW := Fin 0\<rparr>\<rparr> # cs''"
      by auto
    with Cons.IH True pc show ?thesis by auto
  next
    case False
    with Cons.prems pc obtain n1 p1 n2 p2 cs'' where
      "updateStates K R x ms vs pcs p2 = Some cs''"
      "cs' = updateComponent x ms vs pos n1 n2 c # cs''"
      by (auto split: Option.bind_splits)
    with Cons.IH False pc show ?thesis by auto
  qed
qed

lemma solveCircuit_cases:
  assumes "solveCircuit app = Some app'"
  shows "(systemOf app = None \<and> (app' = app \<or> app' = app\<lparr>components := map zeroState (components app)\<rparr>)) \<or>
         (\<exists>A b K R ms parent cs'. systemOf app = Some (A, b) \<and>
            updateStates K R (solve A b) ms (voltageSources (components app))
              (enumerate 0 (components app)) parent = Some cs' \<and>
            app' = app\<lparr>components := cs'\<rparr>)"
  using assms unfolding solveCircuit_def systemOf_def
  by (fastforce split: Option.bind_splits prod.splits if_splits simp: Let_def)

lemma solveCircuit_nth:
  assumes "solveCircuit app = Some app'" and "i < length (components app)"
  shows "wires app' = wires app \<and> length (components app') = length (components app) \<and>
    ((systemOf app = None \<and>
        (components app' ! i = components app ! i \<or>
         components app' ! i = zeroState (components app ! i))) \<or>
     (systemOf app \<noteq> None \<and> burnt (state (components app ! i)) \<and>
        components app' ! i =
          (components app ! i)\<lparr>state :=
             (state (components app ! i))\<lparr>current := Fin 0, powerW := Fin 0\<rparr>\<rparr>) \<or>
     (systemOf app \<noteq> None \<and> \<not> burnt (state (components app ! i)) \<and>
        (\<exists>x ms vs n1 n2.
           components app' ! i = updateComponent x ms vs i n1 n2 (components app ! i))))"
proof -
  from solveCircuit_cases[OF assms(1)] show ?thesis
  proof (elim disjE conjE exE)
    assume "systemOf app = None" "app' = app"
    then show ?thesis by simp
  next
    assume "systemOf app = None" "app' = app\<lparr>components := map zeroState (components app)\<rparr>"
    then show ?thesis using assms(2) by simp
  next
    fix A b K R ms parent cs'
    assume s: "systemOf app = Some (A, b)"
      and u: "updateStates K R (solve A b) ms (voltageSources (components app))
              (enumerate 0 (components app)) parent = Some cs'"
      and a: "app' = app\<lparr>components := cs'\<rparr>"
    note l = updateStates_shape[OF u]
    from l have len: "length cs' = length (components app)"
      by (simp add: list_all2_lengthD[symmetric])
    from assms(2) have e: "enumerate 0 (components app) ! i = (i, components app ! i)"
      by (simp add: nth_enumerate_eq)
    from list_all2_nthD[OF l, of i] assms(2) e
    have d: "(burnt (state (components app ! i)) \<and>
            cs' ! i = (components app ! i)\<lparr>state :=
             (state (components app ! i))\<lparr>current := Fin 0, powerW := Fin 0\<rparr>\<rparr>) \<or>
          (\<not> burnt (state (components app ! i)) \<and>
            (\<exists>n1 n2. cs' ! i = updateComponent (solve A b) ms (voltageSources (components app)) i n1 n2 (components app ! i)))"
      by simp
    have w: "wires app' = wires app" and c: "components app' = cs'" and n: "systemOf app \<noteq> None"
      using a s by simp_all
    from d show ?thesis unfolding w c using len n by blast
  qed
qed

lemma updateComponent_frame:
  "updateComponent x ms vs pos n1 n2 c = c\<lparr>state := state (updateComponent x ms vs pos n1 n2 c)\<rparr> \<and>
   animationOffset (state (updateComponent x ms vs pos n1 n2 c)) = animationOffset (state c)"
  by (simp add: updateComponent_def Let_def)

lemma updateComponent_burnt:
  assumes "burnt (state (updateComponent x ms vs pos n1 n2 c))" and "\<not> burnt (state c)"
  shows "(ctype c = ''resistor'' \<or> ctype c = ''light'' \<or> ctype c = ''fan'') \<and>
         jgt (powerW (state (updateComponent x ms vs pos n1 n2 c)))
             (jmul (powerRating (properties c)) (Fin (3 / 2)))"
  using assms by (auto simp add: updateComponent_def Let_def split: if_splits)

lemma solveCircuit_phases:
  assumes "solveCircuit app = Some app'"
  obtains (empty) K p2 where "nodes app = Some (K, p2, [])" and "app' = app"
  | (ground) K p2 roots g p3 R where "nodes app = Some (K, p2, roots)" and "roots \<noteq> []"
      and "pickGround K (components app) roots p2 = Some (g, p3)"
      and "assignIndices g roots = (R, 0)"
      and "app' = app\<lparr>components := map zeroState (components app)\<rparr>"
  | (solved) K p2 roots g p3 R ms p4 A b cs' where "nodes app = Some (K, p2, roots)"
      and "roots \<noteq> []"
      and "pickGround K (components app) roots p2 = Some (g, p3)"
      and "assignIndices g roots = (R, ms)" and "ms \<noteq> 0"
      and "buildSystem K R ms (components app) p3 = Some (p4, A, b)"
      and "updateStates K R (solve A b) ms (voltageSources (components app))
             (enumerate 0 (components app)) p4 = Some cs'"
      and "app' = app\<lparr>components := cs'\<rparr>"
proof -
  from assms obtain K p2 roots where n: "nodes app = Some (K, p2, roots)"
    unfolding solveCircuit_def by (auto split: Option.bind_splits)
  show thesis
  proof (cases "roots = []")
    case True
    with assms n have "app' = app" unfolding solveCircuit_def by simp
    with n True show thesis by (auto intro: empty)
  next
    case False
    with assms n obtain g p3 where pg: "pickGround K (components app) roots p2 = Some (g, p3)"
      unfolding solveCircuit_def by (auto split: Option.bind_splits)
    obtain R ms where ai: "assignIndices g roots = (R, ms)" by (cases "assignIndices g roots")
    show thesis
    proof (cases "ms = 0")
      case True
      with assms n False pg ai
      have "app' = app\<lparr>components := map zeroState (components app)\<rparr>"
        unfolding solveCircuit_def by simp
      with n False pg ai True show thesis by (auto intro: ground)
    next
      case nz: False
      with assms n False pg ai obtain p4 A b cs' where
        "buildSystem K R ms (components app) p3 = Some (p4, A, b)"
        "updateStates K R (solve A b) ms (voltageSources (components app))
             (enumerate 0 (components app)) p4 = Some cs'"
        "app' = app\<lparr>components := cs'\<rparr>"
        unfolding solveCircuit_def by (auto split: Option.bind_splits simp: Let_def)
      with n False pg ai nz show thesis by (auto intro: solved)
    qed
  qed
qed

lemma solveCircuit_keeps:
  assumes "solveCircuit app = Some app'" and "i < length (components app)"
  shows "components app' ! i = (components app ! i)\<lparr>state := state (components app' ! i)\<rparr>"
    and "animationOffset (state (components app' ! i)) =
           animationOffset (state (components app ! i))"
proof -
  let ?c = "components app ! i" and ?c' = "components app' ! i"
  from solveCircuit_nth[OF assms] consider
      "?c' = ?c" | "?c' = zeroState ?c"
    | "?c' = ?c\<lparr>state := (state ?c)\<lparr>current := Fin 0, powerW := Fin 0\<rparr>\<rparr>"
    | x ms vs n1 n2 where "?c' = updateComponent x ms vs i n1 n2 ?c"
    by blast
  then have "?c' = ?c\<lparr>state := state ?c'\<rparr> \<and>
             animationOffset (state ?c') = animationOffset (state ?c)"
  proof cases
    case 4
    with updateComponent_frame[of x ms vs i n1 n2 ?c] show ?thesis by simp
  qed (simp_all add: zeroState_def)
  then show "?c' = ?c\<lparr>state := state ?c'\<rparr>"
    and "animationOffset (state ?c') = animationOffset (state ?c)"
    by simp_all
qed

lemma solveCircuit_length:
  assumes "solveCircuit app = Some app'"
  shows "wires app' = wires app" and "length (components app') = length (components app)"
proof -
  show "wires app' = wires app" using solveCircuit_cases[OF assms] by auto
  show "length (components app') = length (components app)"
  proof (cases "components app")
    case Nil
    then show ?thesis using solveCircuit_cases[OF assms] by auto
  next
    case (Cons c cs)
    then have "0 < length (components app)" by simp
    from solveCircuit_nth[OF assms this] show ?thesis by blast
  qed
qed

text \<open>
  The two returns before the assembly: no terminal at all, and no node beside ground. In a
  well-formed graph that holds a component the second is the case of a single class of
  terminals.
\<close>

lemma roots_empty_iff:
  assumes "nodes app = Some (K, p2, roots)"
  shows "roots = [] \<longleftrightarrow> termKeys (components app) = []"
proof -
  let ?ks = "termKeys (components app)"
  obtain K' p2' where n': "nodes app = Some (K', p2', foldl setAdd [] (map (\<lambda>k. repOf p2' (K' k)) ?ks))"
    and "dom K' = set ?ks" and "keysOk (length ?ks) K'" and "forest p2'"
    and "sameSet p2' = (sameSet (idParent (length ?ks)) \<union>
           wireElems K' (wires app) \<union> (wireElems K' (wires app))\<inverse>)\<^sup>*"
    by (rule nodes_facts)
  from assms n' have "roots = foldl setAdd [] (map (\<lambda>k. repOf p2' (K' k)) ?ks)" by auto
  then have "set roots = (\<lambda>k. repOf p2' (K' k)) ` set ?ks" by (simp add: set_foldl_setAdd)
  then have "set roots = {} \<longleftrightarrow> set ?ks = {}" by simp
  then show ?thesis by simp
qed

lemma matrixSize_classes:
  assumes wf: "wellFormed app" and n: "nodes app = Some (K, p2, roots)" and ne: "roots \<noteq> []"
    and pg: "pickGround K (components app) roots p2 = Some (g, p3)"
    and ai: "assignIndices g roots = (R, ms)"
  shows "ms = card (nodeClasses app) - 1" and "length roots = card (nodeClasses app)"
proof -
  let ?ks = "termKeys (components app)"
  obtain K' p2' where n': "nodes app = Some (K', p2', foldl setAdd [] (map (\<lambda>k. repOf p2' (K' k)) ?ks))"
    and d: "dom K' = set ?ks" and ok: "keysOk (length ?ks) K'" and t2: "forest p2'"
    and s2: "sameSet p2' = (sameSet (idParent (length ?ks)) \<union>
           wireElems K' (wires app) \<union> (wireElems K' (wires app))\<inverse>)\<^sup>*"
    by (rule nodes_facts)
  from n n' have e: "K' = K" "p2' = p2" by simp_all
  from n n' have r: "roots = foldl setAdd [] (map (\<lambda>k. repOf p2 (K k)) ?ks)"
    unfolding e by auto
  show len: "length roots = card (nodeClasses app)"
    unfolding r using card_nodeClasses[OF ok d wellFormed_wires[OF wf] s2] unfolding e .
  have dr: "distinct roots" unfolding r by (rule distinct_foldl_setAdd) simp
  obtain p3' where pg': "pickGround K (components app) roots p2 =
       Some ((case List.find (\<lambda>c. ctype c = ''battery'') (components app) of
                None \<Rightarrow> roots ! 0
              | Some battery \<Rightarrow> repOf p2 (K (getTermKey (cid battery) 0))), p3')"
    using pickGround_facts[OF t2[unfolded e]] by blast
  from pg pg' ground_in_roots[OF wf ne r] have g: "g \<in> set roots" by simp
  from assignIndices_facts(1)[OF ai] length_filter_neq[OF dr g] len
  show "ms = card (nodeClasses app) - 1" by simp
qed

lemma early_phases:
  assumes s: "solveCircuit app = Some app'" and sy: "systemOf app = None"
    and ks: "termKeys (components app) \<noteq> []"
  obtains K p2 roots g p3 R where "nodes app = Some (K, p2, roots)" and "roots \<noteq> []"
    and "pickGround K (components app) roots p2 = Some (g, p3)"
    and "assignIndices g roots = (R, 0)"
proof -
  from s obtain K p2 roots where n: "nodes app = Some (K, p2, roots)"
    unfolding solveCircuit_def by (auto split: Option.bind_splits)
  from roots_empty_iff[OF n] ks have ne: "roots \<noteq> []" by simp
  with s n obtain g p3 where pg: "pickGround K (components app) roots p2 = Some (g, p3)"
    unfolding solveCircuit_def by (auto split: Option.bind_splits)
  obtain R ms where ai: "assignIndices g roots = (R, ms)" by (cases "assignIndices g roots")
  have "ms = 0"
  proof (rule ccontr)
    assume nz: "ms \<noteq> 0"
    with s n ne pg ai obtain p4 A b where
      "buildSystem K R ms (components app) p3 = Some (p4, A, b)"
      unfolding solveCircuit_def by (auto split: Option.bind_splits)
    with n ne pg ai nz have "systemOf app = Some (A, b)" by (simp add: systemOf_def)
    with sy show False by simp
  qed
  with n ne pg ai that show thesis by simp
qed

lemma wellFormed_termKeys:
  assumes "wellFormed app" and "components app \<noteq> []"
  shows "termKeys (components app) \<noteq> []"
proof -
  from assms(2) have c: "hd (components app) \<in> set (components app)" by simp
  with assms(1) have "map tid (terminals (hd (components app))) = [0, 1]"
    by (simp add: wellFormed_def)
  with c have "getTermKey (cid (hd (components app))) 0 \<in> set (termKeys (components app))"
    by (intro termKeys_member) simp_all
  then show ?thesis by auto
qed

lemma systemOf_classes:
  assumes wf: "wellFormed app" and ne: "components app \<noteq> []"
  shows "systemOf app = None \<longleftrightarrow> card (nodeClasses app) = 1"
proof -
  from solveCircuit_returns[OF wf] obtain app' where "solveCircuit app = Some app'" ..
  then show ?thesis
  proof (cases rule: solveCircuit_phases)
    case (empty K p2)
    with roots_empty_iff[OF empty(1)] wellFormed_termKeys[OF wf ne] show ?thesis by simp
  next
    case (ground K p2 roots g p3 R)
    then have s: "systemOf app = None" by (simp add: systemOf_def)
    from matrixSize_classes[OF wf ground(1) ground(2) ground(3) ground(4)] ground(2)
    have "card (nodeClasses app) = 1" by (cases roots) simp_all
    with s show ?thesis by simp
  next
    case (solved K p2 roots g p3 R ms p4 A b cs')
    then have s: "systemOf app = Some (A, b)" by (simp add: systemOf_def)
    from matrixSize_classes(1)[OF wf solved(1) solved(2) solved(3) solved(4)] solved(5)
    have "card (nodeClasses app) \<noteq> 1" by simp
    with s show ?thesis by simp
  qed
qed

text \<open>
  Claim C4. In a call that returns, a burnt flag that is set stays set, and a flag that the
  call sets belongs to a resistor, a light or a fan whose power, as this call computed and
  stored it, is strictly above 1.5 times its \<open>powerRating\<close>.
\<close>

theorem burnt_only_by_overload:
  assumes "solveCircuit app = Some app'" and "i < length (components app)"
  shows "(burnt (state (components app ! i)) \<longrightarrow> burnt (state (components app' ! i))) \<and>
         (\<not> burnt (state (components app ! i)) \<and> burnt (state (components app' ! i)) \<longrightarrow>
            (ctype (components app ! i) = ''resistor'' \<or> ctype (components app ! i) = ''light'' \<or>
             ctype (components app ! i) = ''fan'') \<and>
            jgt (powerW (state (components app' ! i)))
                (jmul (powerRating (properties (components app ! i))) (Fin (3 / 2))))"
proof -
  let ?c = "components app ! i" and ?c' = "components app' ! i"
  from solveCircuit_nth[OF assms] consider
      "?c' = ?c" | "?c' = zeroState ?c"
    | "burnt (state ?c)" "?c' = ?c\<lparr>state := (state ?c)\<lparr>current := Fin 0, powerW := Fin 0\<rparr>\<rparr>"
    | x ms vs n1 n2 where "\<not> burnt (state ?c)" "?c' = updateComponent x ms vs i n1 n2 ?c"
    by blast
  then show ?thesis
  proof cases
    case 4
    with updateComponent_burnt[of x ms vs i n1 n2 ?c] show ?thesis by auto
  qed (simp_all add: zeroState_def)
qed

theorem burnt_only_by_overload_witness:
  "solveCircuit seriesCircuit = Some seriesSolved \<and> 1 < length (components seriesCircuit) \<and>
   \<not> burnt (state (components seriesCircuit ! 1)) \<and> burnt (state (components seriesSolved ! 1)) \<and>
   (ctype (components seriesCircuit ! 1) = ''resistor'' \<or>
    ctype (components seriesCircuit ! 1) = ''light'' \<or>
    ctype (components seriesCircuit ! 1) = ''fan'') \<and>
   jgt (powerW (state (components seriesSolved ! 1)))
       (jmul (powerRating (properties (components seriesCircuit ! 1))) (Fin (3 / 2)))"
proof -
  have h1: "1 < length (components seriesCircuit)"
    and h2: "\<not> burnt (state (components seriesCircuit ! 1))"
    by (simp_all add: seriesCircuit_def loopWith_def newComponent_def)
  have h3: "burnt (state (components seriesSolved ! 1))"
    by (simp add: seriesSolved_def loopOf_def solvedState_def)
  note c = burnt_only_by_overload[OF seriesCircuit_solved h1]
  show ?thesis using seriesCircuit_solved h1 h2 h3 c by blast
qed

text \<open>
  Claim C5, as the code has it. A call on a well-formed graph returns, and it assembles a
  system unless all terminals are one node, the ground. For a component that is burnt when the
  call starts: a call that assembles a system sets its current to 0 and its power to 0 and
  leaves the rest of its state, the voltage drop with it, as it is; a call on a graph that has
  terminals and that assembles no system, because all terminals are the ground node, sets its
  current and its voltage drop to 0 and leaves the rest, the power with it, as it is; a call
  on a graph without any terminal leaves its state as it is.
\<close>

theorem burnt_component_update:
  assumes "i < length (components app)" and "burnt (state (components app ! i))"
  shows "(wellFormed app \<longrightarrow>
            (\<exists>app'. solveCircuit app = Some app') \<and>
            (systemOf app = None \<longleftrightarrow> card (nodeClasses app) = 1)) \<and>
         (\<forall>app'. solveCircuit app = Some app' \<longrightarrow>
            (systemOf app \<noteq> None \<longrightarrow>
               state (components app' ! i) =
                 (state (components app ! i))\<lparr>current := Fin 0, powerW := Fin 0\<rparr>) \<and>
            (systemOf app = None \<and> termKeys (components app) \<noteq> [] \<longrightarrow>
               state (components app' ! i) =
                 (state (components app ! i))\<lparr>current := Fin 0, voltageDrop := Fin 0\<rparr>) \<and>
            (termKeys (components app) = [] \<longrightarrow>
               state (components app' ! i) = state (components app ! i)))"
proof (intro conjI allI impI)
  assume "wellFormed app"
  then show "\<exists>app'. solveCircuit app = Some app'" by (rule solveCircuit_returns)
next
  assume "wellFormed app"
  moreover from assms(1) have "components app \<noteq> []" by auto
  ultimately show "systemOf app = None \<longleftrightarrow> card (nodeClasses app) = 1"
    by (rule systemOf_classes)
next
  fix app'
  assume solved: "solveCircuit app = Some app'" and "systemOf app \<noteq> None"
  with solveCircuit_nth[OF solved assms(1)] assms(2)
  show "state (components app' ! i) =
          (state (components app ! i))\<lparr>current := Fin 0, powerW := Fin 0\<rparr>"
    by (elim conjE disjE exE) simp_all
next
  fix app'
  assume solved: "solveCircuit app = Some app'"
    and e: "systemOf app = None \<and> termKeys (components app) \<noteq> []"
  obtain K p2 roots g p3 R where "nodes app = Some (K, p2, roots)" and "roots \<noteq> []"
    and "pickGround K (components app) roots p2 = Some (g, p3)"
    and "assignIndices g roots = (R, 0)"
    by (rule early_phases[OF solved conjunct1[OF e] conjunct2[OF e]])
  with solved have "app' = app\<lparr>components := map zeroState (components app)\<rparr>"
    unfolding solveCircuit_def by simp
  with assms(1) show "state (components app' ! i) =
          (state (components app ! i))\<lparr>current := Fin 0, voltageDrop := Fin 0\<rparr>"
    by (simp add: zeroState_def)
next
  fix app'
  assume solved: "solveCircuit app = Some app'" and ks: "termKeys (components app) = []"
  from solved obtain K p2 roots where n: "nodes app = Some (K, p2, roots)"
    unfolding solveCircuit_def by (auto split: Option.bind_splits)
  from roots_empty_iff[OF n] ks have "roots = []" by simp
  with solved n have "app' = app" unfolding solveCircuit_def by simp
  then show "state (components app' ! i) = state (components app ! i)" by simp
qed

theorem burnt_component_update_witness:
  "1 < length (components seriesSolved) \<and> burnt (state (components seriesSolved ! 1)) \<and>
   wellFormed seriesSolved \<and> (\<exists>app'. solveCircuit seriesSolved = Some app') \<and>
   solveCircuit seriesSolved = Some seriesSolvedAgain \<and> systemOf seriesSolved \<noteq> None \<and>
   card (nodeClasses seriesSolved) \<noteq> 1 \<and>
   state (components seriesSolvedAgain ! 1) =
     (state (components seriesSolved ! 1))\<lparr>current := Fin 0, powerW := Fin 0\<rparr> \<and>
   1 < length (components shortedCircuit) \<and> burnt (state (components shortedCircuit ! 1)) \<and>
   wellFormed shortedCircuit \<and> solveCircuit shortedCircuit = Some shortedSolved \<and>
   systemOf shortedCircuit = None \<and> termKeys (components shortedCircuit) \<noteq> [] \<and>
   card (nodeClasses shortedCircuit) = 1 \<and>
   state (components shortedSolved ! 1) =
     (state (components shortedCircuit ! 1))\<lparr>current := Fin 0, voltageDrop := Fin 0\<rparr> \<and>
   0 < length (components looseResistor) \<and> burnt (state (components looseResistor ! 0)) \<and>
   solveCircuit looseResistor = Some looseResistor \<and>
   termKeys (components looseResistor) = [] \<and>
   map_option (\<lambda>a. state (components a ! 0)) (solveCircuit looseResistor) =
     Some (state (components looseResistor ! 0))"
proof -
  have h1: "1 < length (components seriesSolved)"
    and h2: "burnt (state (components seriesSolved ! 1))"
    by (simp_all add: seriesSolved_def loopOf_def solvedState_def)
  have k1: "1 < length (components shortedCircuit)"
    and k2: "burnt (state (components shortedCircuit ! 1))"
    by (simp_all add: shortedCircuit_def loopWith_def burntResistor_def)
  have k3: "termKeys (components shortedCircuit) \<noteq> []"
    by (simp add: shortedCircuit_def loopWith_def burntResistor_def termKeys_def
        newComponent_def getTerminalsConfig_def)
  have l1: "0 < length (components looseResistor)"
    and l2: "burnt (state (components looseResistor ! 0))"
    by (simp_all add: looseResistor_def burntResistor_def)
  note c = burnt_component_update[OF h1 h2]
  note d = burnt_component_update[OF k1 k2]
  note e = burnt_component_update[OF l1 l2]
  note c1 = c[THEN conjunct1, THEN mp, OF wellFormed_examples(2)]
  note c2 = c[THEN conjunct2, THEN spec, THEN mp, OF seriesSolved_solved]
  note d1 = d[THEN conjunct1, THEN mp, OF wellFormed_examples(3)]
  note d2 = d[THEN conjunct2, THEN spec, THEN mp, OF shortedCircuit_solved]
  note e2 = e[THEN conjunct2, THEN spec, THEN mp, OF looseResistor_solved]
  from c1 have c3: "\<exists>app'. solveCircuit seriesSolved = Some app'" by (rule conjunct1)
  from c1 systemOf_seriesSolved have c4: "card (nodeClasses seriesSolved) \<noteq> 1" by simp
  from c2 systemOf_seriesSolved have c5: "state (components seriesSolvedAgain ! 1) =
     (state (components seriesSolved ! 1))\<lparr>current := Fin 0, powerW := Fin 0\<rparr>" by simp
  from d1 systemOf_shortedCircuit have d4: "card (nodeClasses shortedCircuit) = 1" by simp
  from d2 systemOf_shortedCircuit k3 have d5: "state (components shortedSolved ! 1) =
     (state (components shortedCircuit ! 1))\<lparr>current := Fin 0, voltageDrop := Fin 0\<rparr>"
    by simp
  from e2 termKeys_looseResistor
  have "state (components looseResistor ! 0) = state (components looseResistor ! 0)"
    by simp
  then have e5: "map_option (\<lambda>a. state (components a ! 0)) (solveCircuit looseResistor) =
     Some (state (components looseResistor ! 0))"
    unfolding looseResistor_solved by simp
  show ?thesis
    by (intro conjI h1 h2 wellFormed_examples(2) c3 seriesSolved_solved systemOf_seriesSolved
        c4 c5 k1 k2 wellFormed_examples(3) shortedCircuit_solved systemOf_shortedCircuit k3
        d4 d5 l1 l2 looseResistor_solved termKeys_looseResistor e5)
qed

text \<open>
  Claim C5 as stated fails: in the loop with a wire across the battery all terminals are one
  node, and the call sets the voltage drop of the burnt resistor, 9 V before, to 0.
\<close>

theorem burnt_voltage_drop_counterexample:
  "burnt (state (components shortedCircuit ! 1)) \<and>
   voltageDrop (state (components shortedCircuit ! 1)) = Fin 9 \<and>
   map_option (\<lambda>a. voltageDrop (state (components a ! 1))) (solveCircuit shortedCircuit) =
     Some (Fin 0)"
  by code_simp

text \<open>
  Claim C10. A call that returns leaves the wires and the number and order of the components
  as they are, and of a component it changes nothing but the state, of which the field
  \<open>animationOffset\<close> stays as well: what it writes are the fields \<open>current\<close>, \<open>voltageDrop\<close>,
  \<open>power\<close>, \<open>burnt\<close> and \<open>nodeIds\<close>.
\<close>

theorem solveCircuit_frame:
  assumes "solveCircuit app = Some app'"
  shows "wires app' = wires app \<and> length (components app') = length (components app) \<and>
         (\<forall>i < length (components app).
            components app' ! i = (components app ! i)\<lparr>state := state (components app' ! i)\<rparr> \<and>
            animationOffset (state (components app' ! i)) =
              animationOffset (state (components app ! i)))"
  using solveCircuit_length[OF assms] solveCircuit_keeps[OF assms] by blast

theorem solveCircuit_frame_witness:
  "solveCircuit seriesCircuit = Some seriesSolved \<and>
   wires seriesSolved = wires seriesCircuit \<and>
   length (components seriesSolved) = length (components seriesCircuit) \<and>
   components seriesSolved ! 1 =
     (components seriesCircuit ! 1)\<lparr>state := state (components seriesSolved ! 1)\<rparr> \<and>
   animationOffset (state (components seriesSolved ! 1)) =
     animationOffset (state (components seriesCircuit ! 1))"
proof -
  have h1: "1 < length (components seriesCircuit)"
    by (simp add: seriesCircuit_def loopWith_def)
  note c = solveCircuit_frame[OF seriesCircuit_solved]
  show ?thesis using seriesCircuit_solved h1 c by blast
qed

section \<open>Solving twice\<close>

text \<open>
  Claim C6 as stated fails: the series circuit holds a battery and a resistor only, and the
  first call burns the resistor, so that the second call finds an open loop. The current of
  the battery is about -0.0914 A after the first call and about -0.000000009 A after the
  second, and the current of the resistor falls from about 0.0914 A to 0.
\<close>

theorem solve_twice_counterexample:
  "map ctype (components seriesCircuit) = [''battery'', ''resistor''] \<and>
   map_option (\<lambda>a. map (\<lambda>c. current (state c)) (components a)) (solveCircuit seriesCircuit) =
     Some [Fin (- (180000018 / 1969999997)), Fin (180000000 / 1969999997)] \<and>
   map_option (\<lambda>a. map (\<lambda>c. current (state c)) (components a))
     (Option.bind (solveCircuit seriesCircuit) solveCircuit) =
     Some [Fin (- (18 / 1999999997)), Fin 0] \<and>
   (9 / 100 < \<bar>- (180000018 / 1969999997) - (- (18 / 1999999997)) :: real\<bar>)"
  by code_simp

section \<open>The phases read the inputs only\<close>

lemma sameInputs_fields:
  assumes "sameInputs c c'"
  shows "cid c' = cid c" "ctype c' = ctype c" "terminals c' = terminals c"
    "properties c' = properties c" "burnt (state c') = burnt (state c)" "ctype c \<noteq> ''diode''"
proof -
  from assms have e: "c' = c\<lparr>state := state c'\<rparr>" by (simp add: sameInputs_def)
  show "cid c' = cid c" by (subst e) simp
  show "ctype c' = ctype c" by (subst e) simp
  show "terminals c' = terminals c" by (subst e) simp
  show "properties c' = properties c" by (subst e) simp
  from assms show "burnt (state c') = burnt (state c)" "ctype c \<noteq> ''diode''"
    by (simp_all add: sameInputs_def)
qed

lemma foldl_rel:
  "list_all2 R xs ys \<Longrightarrow> (\<And>a x y. R x y \<Longrightarrow> f a x = f a y) \<Longrightarrow> foldl f a xs = foldl f a ys"
  by (induction arbitrary: a rule: list_all2_induct) simp_all

lemma map_rel:
  "list_all2 R xs ys \<Longrightarrow> (\<And>x y. R x y \<Longrightarrow> f x = f y) \<Longrightarrow> map f xs = map f ys"
  by (induction rule: list_all2_induct) simp_all

lemma makeSets_same:
  assumes "list_all2 sameInputs cs cs'"
  shows "makeSets cs' = makeSets cs"
  unfolding makeSets_def
  by (rule foldl_rel[OF assms, symmetric]) (simp add: sameInputs_fields)

lemma termKeys_same:
  assumes "list_all2 sameInputs cs cs'"
  shows "termKeys cs' = termKeys cs"
proof -
  have "map (\<lambda>c. map (\<lambda>t. getTermKey (cid c) (tid t)) (terminals c)) cs =
        map (\<lambda>c. map (\<lambda>t. getTermKey (cid c) (tid t)) (terminals c)) cs'"
    by (rule map_rel[OF assms]) (simp add: sameInputs_fields)
  then show ?thesis by (simp add: termKeys_def)
qed

lemma nodes_same:
  assumes "list_all2 sameInputs (components app) (components app')" and "wires app' = wires app"
  shows "nodes app' = nodes app"
  unfolding nodes_def using makeSets_same[OF assms(1)] termKeys_same[OF assms(1)] assms(2)
  by simp

lemma find_rel:
  "list_all2 R xs ys \<Longrightarrow> (\<And>x y. R x y \<Longrightarrow> P x = P y) \<Longrightarrow>
   rel_option R (List.find P xs) (List.find P ys)"
  by (induction rule: list_all2_induct) auto

lemma pickGround_same:
  assumes "list_all2 sameInputs cs cs'"
  shows "pickGround K cs' roots p = pickGround K cs roots p"
proof -
  have "rel_option sameInputs (List.find (\<lambda>c. ctype c = ''battery'') cs)
          (List.find (\<lambda>c. ctype c = ''battery'') cs')"
    by (rule find_rel[OF assms]) (simp add: sameInputs_fields)
  then show ?thesis
    unfolding pickGround_def
    by (cases rule: option.rel_cases) (simp_all add: sameInputs_fields)
qed

lemma voltageSources_same:
  assumes "list_all2 sameInputs cs cs'"
  shows "voltageSources cs' = voltageSources cs"
proof -
  from assms have l: "length cs' = length cs" by (simp add: list_all2_lengthD)
  have "\<And>i. i < length cs \<Longrightarrow> sameInputs (cs ! i) (cs' ! i)"
    using assms by (simp add: list_all2_nthD)
  then have "\<And>i. i < length cs \<Longrightarrow>
      ctype (cs' ! i) = ctype (cs ! i) \<and> burnt (state (cs' ! i)) = burnt (state (cs ! i))"
    by (simp add: sameInputs_fields)
  then show ?thesis
    unfolding voltageSources_def l
    by (intro filter_cong) simp_all
qed

lemma stampBattery_same:
  assumes "properties c' = properties c"
  shows "stampBattery ms vs pos c' n1 n2 Ab = stampBattery ms vs pos c n1 n2 Ab"
  unfolding stampBattery_def assms by (rule refl)

lemma stampComponent_same:
  assumes "sameInputs c c'"
  shows "stampComponent ms vs pos c' n1 n2 Ab = stampComponent ms vs pos c n1 n2 Ab"
  using sameInputs_fields[OF assms] stampBattery_same[OF sameInputs_fields(4)[OF assms]]
  by (cases Ab) (simp add: stampComponent_def Let_def)

lemma nodeOf_same:
  assumes "sameInputs c c'"
  shows "nodeOf K R p c' t = nodeOf K R p c t"
  using sameInputs_fields[OF assms] by (simp add: nodeOf_def)

lemma assemble_same:
  "list_all2 sameInputs cs cs' \<Longrightarrow>
   assemble K R ms vs (enumerate n cs') st = assemble K R ms vs (enumerate n cs) st"
proof (induction arbitrary: n st rule: list_all2_induct)
  case Nil
  then show ?case by simp
next
  case (Cons c cs c' cs')
  obtain p Ab where st: "st = (p, Ab)" by (cases st)
  note b = sameInputs_fields(5)[OF Cons.hyps(1)]
  have "assemble K R ms vs ((n, c') # enumerate (Suc n) cs') (p, Ab) =
        assemble K R ms vs ((n, c) # enumerate (Suc n) cs) (p, Ab)"
    unfolding assemble.simps b nodeOf_same[OF Cons.hyps(1)] stampComponent_same[OF Cons.hyps(1)]
      Cons.IH
    by (rule refl)
  then show ?case unfolding st by simp
qed

lemma buildSystem_same:
  assumes "list_all2 sameInputs cs cs'"
  shows "buildSystem K R ms cs' p = buildSystem K R ms cs p"
  unfolding buildSystem_def
  by (simp add: voltageSources_same[OF assms] assemble_same[OF assms])

lemma updateComponent_idem:
  assumes "ctype c \<noteq> ''diode''" and "\<not> burnt (state c)"
    and "\<not> burnt (state (updateComponent x ms vs pos n1 n2 c))"
  shows "updateComponent x ms vs pos n1 n2 (updateComponent x ms vs pos n1 n2 c) =
         updateComponent x ms vs pos n1 n2 c"
  using assms by (auto simp add: updateComponent_def Let_def split: if_splits)

lemma updateComponent_cid: "cid (updateComponent x ms vs pos n1 n2 c) = cid c"
  by (simp add: updateComponent_def Let_def)

lemma updateStates_again:
  "updateStates K R x ms vs pcs parent = Some cs' \<Longrightarrow>
   (\<forall>pc \<in> set pcs. ctype (snd pc) \<noteq> ''diode'') \<Longrightarrow>
   list_all2 (\<lambda>pc c'. burnt (state c') = burnt (state (snd pc))) pcs cs' \<Longrightarrow>
   updateStates K R x ms vs (zip (map fst pcs) cs') parent = Some cs'"
proof (induction pcs arbitrary: parent cs')
  case Nil
  then show ?case by simp
next
  case (Cons pc pcs)
  obtain pos c where pc: "pc = (pos, c)" by (cases pc)
  from Cons.prems(3) obtain c0 cs0 where cs': "cs' = c0 # cs0"
    and b0: "burnt (state c0) = burnt (state c)"
    and r0: "list_all2 (\<lambda>pc c'. burnt (state c') = burnt (state (snd pc))) pcs cs0"
    unfolding pc by (cases cs') auto
  from Cons.prems(2) have d: "ctype c \<noteq> ''diode''" and ds: "\<forall>pc \<in> set pcs. ctype (snd pc) \<noteq> ''diode''"
    unfolding pc by simp_all
  show ?case
  proof (cases "burnt (state c)")
    case True
    with Cons.prems(1) have u: "updateStates K R x ms vs pcs parent = Some cs0"
      and c0: "c0 = c\<lparr>state := (state c)\<lparr>current := Fin 0, powerW := Fin 0\<rparr>\<rparr>"
      unfolding pc cs' by auto
    from c0 True have "burnt (state c0)"
      and "c0\<lparr>state := (state c0)\<lparr>current := Fin 0, powerW := Fin 0\<rparr>\<rparr> = c0"
      by simp_all
    with Cons.IH[OF u ds r0] show ?thesis unfolding pc cs' by simp
  next
    case False
    with Cons.prems(1) obtain n1 p1 n2 p2 where
      n1: "nodeOf K R parent c 0 = Some (n1, p1)" and n2: "nodeOf K R p1 c 1 = Some (n2, p2)"
      and u: "updateStates K R x ms vs pcs p2 = Some cs0"
      and c0: "c0 = updateComponent x ms vs pos n1 n2 c"
      unfolding pc cs' by (auto split: Option.bind_splits)
    from b0 False have nb: "\<not> burnt (state c0)" by simp
    have i: "cid c0 = cid c" unfolding c0 by (rule updateComponent_cid)
    have m1: "nodeOf K R parent c0 0 = Some (n1, p1)" and m2: "nodeOf K R p1 c0 1 = Some (n2, p2)"
      using n1 n2 by (simp_all add: nodeOf_def i)
    have e: "updateComponent x ms vs pos n1 n2 c0 = c0"
      using updateComponent_idem[OF d False, of x ms vs pos n1 n2] nb unfolding c0 by simp
    show ?thesis unfolding pc cs' using nb m1 m2 e Cons.IH[OF u ds r0] by simp
  qed
qed

text \<open>
  Claim C6, for a first call that burns nothing. If the graph holds batteries, resistors,
  lights, fans and switches only, and the first call returns and changes no burnt flag, then
  a second call returns with the state of every component as the first call left it (in
  the model the two states are equal, not only within a tolerance).
\<close>

theorem solve_twice:
  assumes types: "\<forall>c \<in> set (components app).
      ctype c = ''battery'' \<or> ctype c = ''resistor'' \<or> ctype c = ''light'' \<or>
      ctype c = ''fan'' \<or> ctype c = ''switch''"
    and solved: "solveCircuit app = Some app'"
    and noburn: "\<forall>i < length (components app).
      burnt (state (components app' ! i)) = burnt (state (components app ! i))"
  shows "solveCircuit app' = Some app'"
proof -
  let ?cs = "components app" and ?cs' = "components app'"
  have nd: "\<And>c. c \<in> set ?cs \<Longrightarrow> ctype c \<noteq> ''diode''"
    using types by auto
  note w = solveCircuit_length(1)[OF solved] and len = solveCircuit_length(2)[OF solved]
  have same: "list_all2 sameInputs ?cs ?cs'"
    unfolding list_all2_conv_all_nth
    using len noburn solveCircuit_keeps(1)[OF solved] nd
    by (simp add: sameInputs_def)
  note ph = nodes_same[OF same w] pickGround_same[OF same] buildSystem_same[OF same]
    voltageSources_same[OF same]
  from solved show ?thesis
  proof (cases rule: solveCircuit_phases)
    case (empty K p2)
    with solved show ?thesis by simp
  next
    case (ground K p2 roots g p3 R)
    have zz: "map zeroState ?cs' = ?cs'"
      unfolding ground(5) by (simp add: zeroState_def)
    have a: "app'\<lparr>components := ?cs'\<rparr> = app'" by simp
    show ?thesis
      unfolding solveCircuit_def ph using ground(1-4) by (simp add: zz)
  next
    case (solved K p2 roots g p3 R ms p4 A b cs')
    have c: "?cs' = cs'" unfolding solved(8) by simp
    have z: "zip (map fst (enumerate 0 ?cs)) cs' = enumerate 0 cs'"
      using len unfolding c by (simp add: enumerate_eq_zip)
    have d: "\<forall>pc \<in> set (enumerate 0 ?cs). ctype (snd pc) \<noteq> ''diode''"
      using nd by (auto simp add: in_set_enumerate_eq)
    have r: "list_all2 (\<lambda>pc c'. burnt (state c') = burnt (state (snd pc))) (enumerate 0 ?cs) cs'"
      unfolding list_all2_conv_all_nth using len noburn unfolding c
      by (simp add: nth_enumerate_eq)
    have u: "updateStates K R (solve A b) ms (voltageSources ?cs) (enumerate 0 cs') p4 = Some cs'"
      using updateStates_again[OF solved(7) d r] unfolding z .
    have a: "app'\<lparr>components := cs'\<rparr> = app'" unfolding c[symmetric] by simp
    show ?thesis
      unfolding solveCircuit_def ph using solved(1-6) u by (simp add: c a)
  qed
qed

theorem solve_twice_witness:
  "map ctype (components kiloOhmCircuit) = [''battery'', ''resistor''] \<and>
   solveCircuit kiloOhmCircuit = Some kiloOhmSolved \<and>
   map (\<lambda>c. burnt (state c)) (components kiloOhmSolved) =
     map (\<lambda>c. burnt (state c)) (components kiloOhmCircuit) \<and>
   solveCircuit kiloOhmSolved = Some kiloOhmSolved"
proof -
  have t: "map ctype (components kiloOhmCircuit) = [''battery'', ''resistor'']"
    and b: "map (\<lambda>c. burnt (state c)) (components kiloOhmSolved) =
     map (\<lambda>c. burnt (state c)) (components kiloOhmCircuit)"
    by (simp_all add: kiloOhmCircuit_def kiloOhmSolved_def loopWith_def loopOf_def
        newComponent_def withResistance_def solvedState_def)
  have h1: "\<forall>c \<in> set (components kiloOhmCircuit).
      ctype c = ''battery'' \<or> ctype c = ''resistor'' \<or> ctype c = ''light'' \<or>
      ctype c = ''fan'' \<or> ctype c = ''switch''"
    by (simp add: kiloOhmCircuit_def loopWith_def newComponent_def withResistance_def)
  have h3: "\<forall>i < length (components kiloOhmCircuit).
      burnt (state (components kiloOhmSolved ! i)) = burnt (state (components kiloOhmCircuit ! i))"
    by (simp add: kiloOhmCircuit_def kiloOhmSolved_def loopWith_def loopOf_def
        newComponent_def withResistance_def solvedState_def less_Suc_eq)
  note c = solve_twice[OF h1 kiloOhmCircuit_solved h3]
  show ?thesis using t b kiloOhmCircuit_solved c by blast
qed

section \<open>The dimension of the system\<close>



end
